theory Spec2Isabelle
  imports Main
begin

section \<open>IXSocketConnect: the data model\<close>

text \<open>
  The file \<^verbatim>\<open>ixwebsocket/IXSocketConnect.cpp\<close> holds three functions of
  \<^verbatim>\<open>SocketConnect\<close>: \<^verbatim>\<open>connectToAddress\<close> (one candidate, a bounded polling
  loop), \<^verbatim>\<open>connect\<close> (the loop over the resolved candidates) and \<^verbatim>\<open>configure\<close>
  (three socket options). Everything they do is a call into the operating system or
  into the cancellation callback, so the model makes those calls explicit: every call is
  recorded, in order, in the \<open>trace\<close> of a \<open>world\<close>, and what the call answers is
  read from a record of replies that belongs to the candidate being attempted.
\<close>

text \<open>
  \<^verbatim>\<open>struct addrinfo\<close>: the fields the code reads. \<^verbatim>\<open>ai_next\<close> is the list
  structure itself: a chain of \<^verbatim>\<open>addrinfo\<close> is a list, and \<^verbatim>\<open>nullptr\<close> is \<open>[]\<close>.
\<close>

record addrinfo =
  ai_family :: int
  ai_socktype :: int
  ai_protocol :: int
  ai_addr :: "nat list"

text \<open>
  What is fixed when the file is compiled. The model is the build without
  \<^verbatim>\<open>_WIN32\<close>; \<open>has_SO_NOSIGPIPE\<close> says whether the macro \<^verbatim>\<open>SO_NOSIGPIPE\<close>
  is defined, \<open>einprogress\<close> is the value of \<^verbatim>\<open>EINPROGRESS\<close>, and \<open>strerror\<close> is the
  C library's table of error texts.
\<close>

record platform =
  has_SO_NOSIGPIPE :: bool
  einprogress :: int
  strerror :: "int \<Rightarrow> string"

text \<open>
  The replies of the environment during the attempt on one candidate: what each system
  call returns, and what the callback \<^verbatim>\<open>isCancellationRequested\<close> answers.
  \<open>isCancellationRequested i\<close> is the answer of the callback at its call in iteration
  \<open>i\<close> of the polling loop of this attempt (the loop calls it once per iteration, first
  thing, and nothing else in the file calls it); a callback that always answers the same
  has the same function in every candidate. \<open>writable i\<close> is whether
  \<^verbatim>\<open>FD_ISSET(fd, &wfds)\<close> holds after the \<^verbatim>\<open>select\<close> of iteration \<open>i\<close>, whatever
  \<^verbatim>\<open>select\<close> returned. \<open>so_error = None\<close> is a \<^verbatim>\<open>getsockopt\<close> that leaves
  \<^verbatim>\<open>optval\<close> as it was; \<open>close_errno = None\<close> is a \<^verbatim>\<open>close\<close> that leaves
  \<^verbatim>\<open>errno\<close> as it was.
\<close>

record os_replies =
  socket_ret :: int
  nodelay_ret :: int
  fcntl_ret :: int
  nosigpipe_ret :: int
  connect_ret :: int
  connect_errno :: int
  isCancellationRequested :: "nat \<Rightarrow> bool"
  writable :: "nat \<Rightarrow> bool"
  getsockopt_ret :: int
  so_error :: "int option"
  close_errno :: "int option"

text \<open>The calls the code makes, each with its arguments and what it answered.\<close>

datatype event =
    Sys_socket addrinfo int
  | Sys_nodelay int int
  | Sys_nonblock int int
  | Sys_nosigpipe int int
  | Sys_connect int addrinfo int
  | Poll_cancel bool
  | Sys_select int nat bool
  | Sys_so_error int int int
  | Sys_close int

record world =
  errno :: int
  trace :: "event list"

definition emit :: "event \<Rightarrow> world \<Rightarrow> world" where
  "emit e w = w\<lparr>trace := trace w @ [e]\<rparr>"

section \<open>The functions of the file\<close>

text \<open>\<^verbatim>\<open>closeSocket(fd)\<close>: \<^verbatim>\<open>::close(fd)\<close>, its result ignored.\<close>

definition closeSocket :: "os_replies \<Rightarrow> int \<Rightarrow> world \<Rightarrow> world" where
  "closeSocket os fd w =
     emit (Sys_close fd)
       (w\<lparr>errno := (case close_errno os of None \<Rightarrow> errno w | Some e \<Rightarrow> e)\<rparr>)"

text \<open>
  \<^verbatim>\<open>SocketConnect::configure(sockfd)\<close>: the three options in the order of the
  source, the result of every call dropped (the function is \<^verbatim>\<open>void\<close>). The third
  call exists only where \<^verbatim>\<open>SO_NOSIGPIPE\<close> is defined.
\<close>

definition configure :: "platform \<Rightarrow> os_replies \<Rightarrow> int \<Rightarrow> world \<Rightarrow> world" where
  "configure pf os sockfd w =
     (let w1 = emit (Sys_nodelay sockfd (nodelay_ret os)) w;
          w2 = emit (Sys_nonblock sockfd (fcntl_ret os)) w1
      in if has_SO_NOSIGPIPE pf
         then emit (Sys_nosigpipe sockfd (nosigpipe_ret os)) w2
         else w2)"

text \<open>
  \<^verbatim>\<open>int selectTimeOut = 50 * 1000; int maxRetries = 60 * 1000 * 1000 / selectTimeOut;\<close>
  All values are positive and far below \<open>2 ^ 31\<close>, so C's \<^verbatim>\<open>int\<close> arithmetic is the
  arithmetic of the naturals here.
\<close>

definition selectTimeOut :: nat where
  "selectTimeOut = 50 * 1000"

definition maxRetries :: nat where
  "maxRetries = 60 * 1000 * 1000 div selectTimeOut"

text \<open>
  The \<^verbatim>\<open>for\<close> loop of \<^verbatim>\<open>connectToAddress\<close>, from iteration \<open>i\<close> on, with the
  timeout branch that follows it. The result is (returned flag, \<^verbatim>\<open>sockfd\<close>,
  \<^verbatim>\<open>errMsg\<close>, world). \<^verbatim>\<open>sockfd\<close> is \<open>-1\<close> since the function's entry and is assigned
  in the success branch only; \<^verbatim>\<open>errMsg\<close> is assigned in the failing branches only. What
  \<^verbatim>\<open>select\<close> returns is not looked at.
\<close>

function connectToAddress_loop ::
  "platform \<Rightarrow> os_replies \<Rightarrow> int \<Rightarrow> nat \<Rightarrow> string \<Rightarrow> world \<Rightarrow> bool \<times> int \<times> string \<times> world"
where
  "connectToAddress_loop pf os fd i errMsg w =
     (if i < maxRetries then
        (let w1 = emit (Poll_cancel (isCancellationRequested os i)) w in
         if isCancellationRequested os i then
           (False, -1, ''Cancelled'', closeSocket os fd w1)
         else
           (let w2 = emit (Sys_select fd selectTimeOut (writable os i)) w1 in
            if \<not> writable os i then connectToAddress_loop pf os fd (i + 1) errMsg w2
            else
              (let optval = (case so_error os of None \<Rightarrow> -1 | Some v \<Rightarrow> v);
                   w3 = emit (Sys_so_error fd (getsockopt_ret os) optval) w2
               in if getsockopt_ret os = -1 \<or> optval \<noteq> 0 then
                    (False, -1, strerror pf optval, closeSocket os fd w3)
                  else (True, fd, errMsg, w3))))
      else (False, -1, ''connect timed out after 60 seconds'', closeSocket os fd w))"
  by pat_completeness auto
termination
  by (relation "measure (\<lambda>(pf, os, fd, i, errMsg, w). maxRetries - i)") auto

declare connectToAddress_loop.simps [simp del]

text \<open>
  \<^verbatim>\<open>SocketConnect::connectToAddress(address, sockfd, errMsg, isCancellationRequested)\<close>.
  \<^verbatim>\<open>errno\<close> is read only after \<^verbatim>\<open>::connect\<close> has returned \<open>-1\<close> and so has set it;
  the second read, in \<^verbatim>\<open>strerror(errno)\<close>, comes after \<^verbatim>\<open>closeSocket(fd)\<close>.
\<close>

definition connectToAddress ::
  "platform \<Rightarrow> os_replies \<Rightarrow> addrinfo \<Rightarrow> string \<Rightarrow> world \<Rightarrow> bool \<times> int \<times> string \<times> world"
where
  "connectToAddress pf os address errMsg w =
     (let fd = socket_ret os;
          w1 = emit (Sys_socket address fd) w
      in if fd < 0 then (False, -1, ''Cannot create a socket'', w1)
         else
           (let w2 = configure pf os fd w1;
                w3 = emit (Sys_connect fd address (connect_ret os))
                       (w2\<lparr>errno := (if connect_ret os = -1 then connect_errno os else errno w2)\<rparr>)
            in if connect_ret os = -1 \<and> errno w3 \<noteq> einprogress pf then
                 (let w4 = closeSocket os fd w3
                  in (False, -1, strerror pf (errno w4), w4))
               else connectToAddress_loop pf os fd 0 errMsg w3))"

text \<open>
  The \<^verbatim>\<open>for\<close> loop of \<^verbatim>\<open>SocketConnect::connect\<close> over the chain of candidates,
  with its locals \<^verbatim>\<open>success\<close> and \<^verbatim>\<open>sockfd\<close>. A candidate is its \<^verbatim>\<open>addrinfo\<close>
  together with the replies the environment gives while it is attempted.
\<close>

type_synonym candidate = "addrinfo \<times> os_replies"

fun connect_loop ::
  "platform \<Rightarrow> candidate list \<Rightarrow> bool \<Rightarrow> int \<Rightarrow> string \<Rightarrow> world \<Rightarrow> bool \<times> int \<times> string \<times> world"
where
  "connect_loop pf [] success sockfd errMsg w = (success, sockfd, errMsg, w)"
| "connect_loop pf ((address, os) # rest) success sockfd errMsg w =
     (case connectToAddress pf os address errMsg w of
        (success', sockfd', errMsg', w') \<Rightarrow>
          if success' then (success', sockfd', errMsg', w')
          else connect_loop pf rest success' sockfd' errMsg' w')"

text \<open>
  \<^verbatim>\<open>SocketConnect::connect(hostname, port, errMsg, isCancellationRequested)\<close>.
  \<^verbatim>\<open>DNSLookup::resolve\<close> is not part of the file: its result is a parameter, the chain
  \<open>res\<close> (\<open>[]\<close> for \<^verbatim>\<open>nullptr\<close>) and \<open>errMsg\<close> as the resolver left it. The result is
  (returned descriptor, \<^verbatim>\<open>errMsg\<close>, world). \<^verbatim>\<open>freeaddrinfo(res)\<close> releases the chain
  and touches neither a socket nor \<^verbatim>\<open>errMsg\<close>; it is not recorded.
\<close>

definition connect :: "platform \<Rightarrow> candidate list \<Rightarrow> string \<Rightarrow> world \<Rightarrow> int \<times> string \<times> world" where
  "connect pf res errMsg w =
     (if res = [] then (-1, errMsg, w)
      else (case connect_loop pf res False (-1) errMsg w of
              (success, sockfd, errMsg', w') \<Rightarrow> (sockfd, errMsg', w')))"

section \<open>Vocabulary for the properties\<close>

subsection \<open>Replies\<close>

text \<open>
  \<^verbatim>\<open>int optval = -1;\<close> followed by \<^verbatim>\<open>getsockopt\<close>: the value the code then
  compares with zero and passes to \<^verbatim>\<open>strerror\<close>.
\<close>

definition optval_of :: "os_replies \<Rightarrow> int" where
  "optval_of os = (case so_error os of None \<Rightarrow> -1 | Some v \<Rightarrow> v)"

text \<open>
  The connect call was initiated: it did not return \<open>-1\<close> with an \<^verbatim>\<open>errno\<close> other than
  \<^verbatim>\<open>EINPROGRESS\<close>.
\<close>

definition connect_initiated :: "platform \<Rightarrow> os_replies \<Rightarrow> bool" where
  "connect_initiated pf os \<longleftrightarrow> \<not> (connect_ret os = -1 \<and> connect_errno os \<noteq> einprogress pf)"

definition errno_after_connect :: "os_replies \<Rightarrow> world \<Rightarrow> int" where
  "errno_after_connect os w = (if connect_ret os = -1 then connect_errno os else errno w)"

text \<open>
  In the iterations before \<open>k\<close> the callback never asked for cancellation and the socket
  was never reported writable.
\<close>

definition quiet_until :: "os_replies \<Rightarrow> nat \<Rightarrow> bool" where
  "quiet_until os k = (\<forall>j\<in>{0..<k}. \<not> isCancellationRequested os j \<and> \<not> writable os j)"

text \<open>
  A candidate is reachable when the environment lets the attempt on it go through: the
  socket is created, the connect call is initiated, within the \<open>maxRetries\<close> iterations
  the socket is reported writable before any cancellation is asked for, and the pending
  error read then is zero. \<open>attempt_run\<close> below shows that this is exactly when
  \<open>connectToAddress\<close> returns true.
\<close>

definition reachable :: "platform \<Rightarrow> os_replies \<Rightarrow> bool" where
  "reachable pf os \<longleftrightarrow>
     0 \<le> socket_ret os \<and> connect_initiated pf os \<and>
     (\<exists>k\<in>{0..<maxRetries}. quiet_until os k \<and> \<not> isCancellationRequested os k \<and> writable os k) \<and>
     getsockopt_ret os \<noteq> -1 \<and> optval_of os = 0"

subsection \<open>Calls\<close>

definition emits :: "event list \<Rightarrow> world \<Rightarrow> world" where
  "emits evs w = w\<lparr>trace := trace w @ evs\<rparr>"

text \<open>The calls up to and including the connect call, when the socket was created.\<close>

definition setup_events :: "platform \<Rightarrow> os_replies \<Rightarrow> addrinfo \<Rightarrow> event list" where
  "setup_events pf os a =
     [Sys_socket a (socket_ret os),
      Sys_nodelay (socket_ret os) (nodelay_ret os),
      Sys_nonblock (socket_ret os) (fcntl_ret os)] @
     (if has_SO_NOSIGPIPE pf then [Sys_nosigpipe (socket_ret os) (nosigpipe_ret os)] else []) @
     [Sys_connect (socket_ret os) a (connect_ret os)]"

text \<open>
  \<open>n\<close> iterations of the loop in which nothing happened: the callback answered no and
  the wait ended with the socket not writable.
\<close>

definition idle_events :: "int \<Rightarrow> nat \<Rightarrow> event list" where
  "idle_events fd n = concat (replicate n [Poll_cancel False, Sys_select fd selectTimeOut False])"

text \<open>
  The calls and the message of the attempt on a candidate, run on its own. By
  \<open>attempt_run\<close> the attempt makes these calls, and a failed attempt leaves this
  message, from any world and with any \<^verbatim>\<open>errMsg\<close> on entry.
\<close>

definition fresh_world :: world where
  "fresh_world = \<lparr>errno = 0, trace = []\<rparr>"

definition attempt_events :: "platform \<Rightarrow> candidate \<Rightarrow> event list" where
  "attempt_events pf c =
     trace (snd (snd (snd (connectToAddress pf (snd c) (fst c) [] fresh_world))))"

definition attempt_message :: "platform \<Rightarrow> candidate \<Rightarrow> string" where
  "attempt_message pf c =
     fst (snd (snd (connectToAddress pf (snd c) (fst c) [] fresh_world)))"

subsection \<open>Reading a trace\<close>

fun is_select :: "event \<Rightarrow> bool" where
  "is_select (Sys_select fd t r) = True"
| "is_select e = False"

fun is_poll :: "event \<Rightarrow> bool" where
  "is_poll (Poll_cancel b) = True"
| "is_poll e = False"

fun is_close :: "event \<Rightarrow> bool" where
  "is_close (Sys_close fd) = True"
| "is_close e = False"

text \<open>A call of \<^verbatim>\<open>socket\<close>; one that returned a descriptor.\<close>

fun is_socket_call :: "event \<Rightarrow> bool" where
  "is_socket_call (Sys_socket a fd) = True"
| "is_socket_call e = False"

fun is_open :: "event \<Rightarrow> bool" where
  "is_open (Sys_socket a fd) = (0 \<le> fd)"
| "is_open e = False"

text \<open>One of the three calls of \<^verbatim>\<open>configure\<close>.\<close>

fun is_option_call :: "event \<Rightarrow> bool" where
  "is_option_call (Sys_nodelay fd r) = True"
| "is_option_call (Sys_nonblock fd r) = True"
| "is_option_call (Sys_nosigpipe fd r) = True"
| "is_option_call e = False"

text \<open>The addresses \<^verbatim>\<open>socket\<close> was called with, in the order of the calls.\<close>

fun socket_calls :: "event list \<Rightarrow> addrinfo list" where
  "socket_calls [] = []"
| "socket_calls (Sys_socket a fd # evs) = a # socket_calls evs"
| "socket_calls (e # evs) = socket_calls evs"

text \<open>The same call with \<open>r\<close> as the answer of \<^verbatim>\<open>fcntl\<close>.\<close>

fun with_fcntl_ret :: "int \<Rightarrow> event \<Rightarrow> event" where
  "with_fcntl_ret r (Sys_nonblock fd x) = Sys_nonblock fd r"
| "with_fcntl_ret r e = e"

text \<open>
  The descriptors that are open: \<^verbatim>\<open>socket\<close> opens the descriptor it returns, \<^verbatim>\<open>close\<close>
  closes its argument. \<open>live evs\<close> are the descriptors open after the calls \<open>evs\<close>, and
  \<open>peak fds evs\<close> is the largest number of descriptors open at any moment of \<open>evs\<close>,
  starting with \<open>fds\<close> open.
\<close>

fun track :: "int list \<Rightarrow> event \<Rightarrow> int list" where
  "track fds (Sys_socket a fd) = (if 0 \<le> fd then fd # fds else fds)"
| "track fds (Sys_close fd) = remove1 fd fds"
| "track fds e = fds"

definition live :: "event list \<Rightarrow> int list" where
  "live evs = foldl track [] evs"

fun peak :: "int list \<Rightarrow> event list \<Rightarrow> nat" where
  "peak fds [] = length fds"
| "peak fds (e # evs) = max (length fds) (peak (track fds e) evs)"

text \<open>
  Every readiness wait comes directly after a poll of the callback, and that poll
  answered no.
\<close>

fun waits_polled :: "event list \<Rightarrow> bool" where
  "waits_polled [] = True"
| "waits_polled (Poll_cancel b # Sys_select fd t r # evs) = (\<not> b \<and> waits_polled evs)"
| "waits_polled (Sys_select fd t r # evs) = False"
| "waits_polled (e # evs) = waits_polled evs"

subsection \<open>The courses of an attempt\<close>

text \<open>
  An attempt ends in one of six ways: the socket is not created; the connect call is
  refused at once; the loop runs out; the callback asks for cancellation in iteration
  \<open>k\<close>; the socket is writable in iteration \<open>k\<close> and the pending error is bad; the
  socket is writable in iteration \<open>k\<close> and the pending error is zero. \<open>runs pf os c\<close> says
  that the replies \<open>os\<close> lead to the course \<open>c\<close>; \<open>runs_total\<close> and \<open>runs_unique\<close> show
  that every \<open>os\<close> has exactly one course, and \<open>attempt_course\<close> that
  \<open>connectToAddress\<close> then makes the calls \<open>course_events\<close> and returns the message
  \<open>course_message\<close>.
\<close>

datatype course = No_socket | Refused | Timed_out | Cancelled nat | Broken nat | Connected nat

definition runs :: "platform \<Rightarrow> os_replies \<Rightarrow> course \<Rightarrow> bool" where
  "runs pf os c =
     (case c of
        No_socket \<Rightarrow> socket_ret os < 0
      | Refused \<Rightarrow> 0 \<le> socket_ret os \<and> \<not> connect_initiated pf os
      | Timed_out \<Rightarrow> 0 \<le> socket_ret os \<and> connect_initiated pf os \<and> quiet_until os maxRetries
      | Cancelled k \<Rightarrow> 0 \<le> socket_ret os \<and> connect_initiated pf os \<and> k < maxRetries \<and>
          quiet_until os k \<and> isCancellationRequested os k
      | Broken k \<Rightarrow> 0 \<le> socket_ret os \<and> connect_initiated pf os \<and> k < maxRetries \<and>
          quiet_until os k \<and> \<not> isCancellationRequested os k \<and> writable os k \<and>
          (getsockopt_ret os = -1 \<or> optval_of os \<noteq> 0)
      | Connected k \<Rightarrow> 0 \<le> socket_ret os \<and> connect_initiated pf os \<and> k < maxRetries \<and>
          quiet_until os k \<and> \<not> isCancellationRequested os k \<and> writable os k \<and>
          getsockopt_ret os \<noteq> -1 \<and> optval_of os = 0)"

definition course_events :: "platform \<Rightarrow> os_replies \<Rightarrow> addrinfo \<Rightarrow> course \<Rightarrow> event list" where
  "course_events pf os a c =
     (let fd = socket_ret os in
      case c of
        No_socket \<Rightarrow> [Sys_socket a fd]
      | Refused \<Rightarrow> setup_events pf os a @ [Sys_close fd]
      | Timed_out \<Rightarrow> setup_events pf os a @ idle_events fd maxRetries @ [Sys_close fd]
      | Cancelled k \<Rightarrow> setup_events pf os a @ idle_events fd k @ [Poll_cancel True, Sys_close fd]
      | Broken k \<Rightarrow> setup_events pf os a @ idle_events fd k @
          [Poll_cancel False, Sys_select fd selectTimeOut True,
           Sys_so_error fd (getsockopt_ret os) (optval_of os), Sys_close fd]
      | Connected k \<Rightarrow> setup_events pf os a @ idle_events fd k @
          [Poll_cancel False, Sys_select fd selectTimeOut True,
           Sys_so_error fd (getsockopt_ret os) (optval_of os)])"

definition course_message :: "platform \<Rightarrow> os_replies \<Rightarrow> string \<Rightarrow> course \<Rightarrow> string" where
  "course_message pf os errMsg c =
     (case c of
        No_socket \<Rightarrow> ''Cannot create a socket''
      | Refused \<Rightarrow> strerror pf (case close_errno os of None \<Rightarrow> connect_errno os | Some e \<Rightarrow> e)
      | Timed_out \<Rightarrow> ''connect timed out after 60 seconds''
      | Cancelled k \<Rightarrow> ''Cancelled''
      | Broken k \<Rightarrow> strerror pf (optval_of os)
      | Connected k \<Rightarrow> errMsg)"

section \<open>Concrete platforms and candidates\<close>

text \<open>
  Two platforms: one without \<^verbatim>\<open>SO_NOSIGPIPE\<close> where \<^verbatim>\<open>EINPROGRESS\<close> is 115, one with
  it where \<^verbatim>\<open>EINPROGRESS\<close> is 36. Two addresses, one of family 10 and one of family 2.
\<close>

definition strerror_table :: "int \<Rightarrow> string" where
  "strerror_table e =
     (if e = 111 then ''Connection refused''
      else if e = 110 then ''Connection timed out''
      else ''Unknown error'')"

definition posix :: platform where
  "posix = \<lparr>has_SO_NOSIGPIPE = False, einprogress = 115, strerror = strerror_table\<rparr>"

definition bsd :: platform where
  "bsd = \<lparr>has_SO_NOSIGPIPE = True, einprogress = 36, strerror = strerror_table\<rparr>"

definition addr_A :: addrinfo where
  "addr_A = \<lparr>ai_family = 10, ai_socktype = 1, ai_protocol = 6, ai_addr = [0, 80]\<rparr>"

definition addr_B :: addrinfo where
  "addr_B = \<lparr>ai_family = 2, ai_socktype = 1, ai_protocol = 6, ai_addr = [0, 80, 10, 0, 0, 1]\<rparr>"

text \<open>
  A peer that never answers: the socket is descriptor 3, the connect call is in progress,
  the socket never becomes writable, nobody cancels. The other environments differ from
  it in the fields named: a peer that accepts during the third wait; a peer that refuses
  (pending error 111); a callback that asks for cancellation from the first poll on, and
  one that does from the second poll on; a host that cannot create the socket; a connect
  call that succeeds at once; the same with \<^verbatim>\<open>fcntl\<close> failing.
\<close>

definition os_silent :: os_replies where
  "os_silent =
     \<lparr>socket_ret = 3, nodelay_ret = 0, fcntl_ret = 0, nosigpipe_ret = 0,
      connect_ret = -1, connect_errno = 115,
      isCancellationRequested = (\<lambda>i. False), writable = (\<lambda>i. False),
      getsockopt_ret = 0, so_error = Some 0, close_errno = None\<rparr>"

definition os_accepts :: os_replies where
  "os_accepts = os_silent\<lparr>writable := (\<lambda>i. 2 \<le> i)\<rparr>"

definition os_refuses :: os_replies where
  "os_refuses = os_silent\<lparr>writable := (\<lambda>i. True), so_error := Some 111\<rparr>"


definition os_cancelled_late :: os_replies where
  "os_cancelled_late = os_silent\<lparr>isCancellationRequested := (\<lambda>i. 1 \<le> i)\<rparr>"

definition os_no_socket :: os_replies where
  "os_no_socket = os_silent\<lparr>socket_ret := -1\<rparr>"

definition os_immediate :: os_replies where
  "os_immediate = os_silent\<lparr>connect_ret := 0, writable := (\<lambda>i. True)\<rparr>"

definition os_blocking :: os_replies where
  "os_blocking = os_immediate\<lparr>fcntl_ret := -1\<rparr>"

section \<open>Lemmas\<close>

subsection \<open>Worlds and traces\<close>

lemma maxRetries_eq: "maxRetries = 1200"
  by (simp add: maxRetries_def selectTimeOut_def)

lemma emits_Nil [simp]: "emits [] w = w"
  by (simp add: emits_def)

lemma emits_emits: "emits ys (emits xs w) = emits (xs @ ys) w"
  by (simp add: emits_def)

lemma emit_as_emits: "emit e w = emits [e] w"
  by (simp add: emit_def emits_def)

subsection \<open>Idle iterations\<close>

lemma idle_events_0 [simp]: "idle_events fd 0 = []"
  by (simp add: idle_events_def)

lemma idle_events_Suc: "idle_events fd (Suc n) = idle_events fd n @ [Poll_cancel False, Sys_select fd selectTimeOut False]"
  by (induction n) (simp_all add: idle_events_def)

lemma idle_events_Suc_front:
  "idle_events fd (Suc n) = Poll_cancel False # Sys_select fd selectTimeOut False # idle_events fd n"
  by (simp add: idle_events_def)

lemma set_idle_events:
  "set (idle_events fd n) \<subseteq> {Poll_cancel False, Sys_select fd selectTimeOut False}"
  by (induction n) (auto simp: idle_events_Suc_front)

lemma filter_idle_events:
  assumes "\<not> P (Poll_cancel False)" "\<not> P (Sys_select fd selectTimeOut False)"
  shows "filter P (idle_events fd n) = []"
  using assms by (induction n) (simp_all add: idle_events_Suc_front)

lemma count_select_idle: "length (filter is_select (idle_events fd n)) = n"
  by (induction n) (simp_all add: idle_events_Suc_front)

lemma count_poll_idle: "length (filter is_poll (idle_events fd n)) = n"
  by (induction n) (simp_all add: idle_events_Suc_front)

lemma waits_polled_idle: "waits_polled (idle_events fd n @ evs) = waits_polled evs"
  by (induction n) (simp_all add: idle_events_Suc_front)

lemma foldl_track_idle: "foldl track fds (idle_events fd n @ evs) = foldl track fds evs"
  by (induction n) (simp_all add: idle_events_Suc_front)

lemma foldl_track_idle_only: "foldl track fds (idle_events fd n) = fds"
  using foldl_track_idle [of fds fd n "[]"] by simp

lemma peak_ge_length: "length fds \<le> peak fds evs"
  by (cases evs) simp_all

lemma peak_idle: "peak fds (idle_events fd n @ evs) = peak fds evs"
  using peak_ge_length [of fds evs]
  by (induction n) (simp_all add: idle_events_Suc_front)

lemma peak_append:
  "peak fds (xs @ ys) = max (peak fds xs) (peak (foldl track fds xs) ys)"
proof (induction xs arbitrary: fds)
  case Nil
  show ?case using peak_ge_length [of fds ys] by simp
next
  case (Cons x xs)
  then show ?case by (simp add: max.assoc)
qed

lemma peak_bound:
  "peak fds evs \<le> m \<longleftrightarrow> (\<forall>n\<le>length evs. length (foldl track fds (take n evs)) \<le> m)"
proof (induction evs arbitrary: fds)
  case Nil
  show ?case by simp
next
  case (Cons e evs)
  show ?case
  proof
    assume l: "peak fds (e # evs) \<le> m"
    show "\<forall>n\<le>length (e # evs). length (foldl track fds (take n (e # evs))) \<le> m"
    proof (intro allI impI)
      fix n assume n: "n \<le> length (e # evs)"
      show "length (foldl track fds (take n (e # evs))) \<le> m"
      proof (cases n)
        case 0
        with l show ?thesis by simp
      next
        case (Suc n')
        with n l Cons.IH [of "track fds e"] show ?thesis by simp
      qed
    qed
  next
    assume r: "\<forall>n\<le>length (e # evs). length (foldl track fds (take n (e # evs))) \<le> m"
    from r [rule_format, of 0] have a: "length fds \<le> m" by simp
    have "\<forall>n\<le>length evs. length (foldl track (track fds e) (take n evs)) \<le> m"
    proof (intro allI impI)
      fix n assume "n \<le> length evs"
      with r [rule_format, of "Suc n"] show "length (foldl track (track fds e) (take n evs)) \<le> m"
        by simp
    qed
    with Cons.IH [of "track fds e"] a show "peak fds (e # evs) \<le> m" by simp
  qed
qed

lemma live_append: "live xs = [] \<Longrightarrow> live (xs @ ys) = live ys"
  by (simp add: live_def)

lemma socket_calls_append: "socket_calls (xs @ ys) = socket_calls xs @ socket_calls ys"
  by (induction xs rule: socket_calls.induct) simp_all

lemma socket_calls_idle: "socket_calls (idle_events fd n) = []"
  by (induction n) (simp_all add: idle_events_Suc_front)

lemma map_with_fcntl_ret_idle:
  "map (with_fcntl_ret r) (idle_events fd n) = idle_events fd n"
  by (induction n) (simp_all add: idle_events_Suc_front)

subsection \<open>The polling loop\<close>

lemma loop_idle_step:
  assumes "i < maxRetries" "\<not> isCancellationRequested os i" "\<not> writable os i"
  shows "connectToAddress_loop pf os fd i errMsg w =
         connectToAddress_loop pf os fd (Suc i) errMsg
           (emits [Poll_cancel False, Sys_select fd selectTimeOut False] w)"
  using assms
  by (subst connectToAddress_loop.simps) (simp add: Let_def emit_def emits_def)

lemma loop_idle:
  assumes "\<forall>j. i \<le> j \<and> j < i + n \<longrightarrow> \<not> isCancellationRequested os j \<and> \<not> writable os j"
    and "i + n \<le> maxRetries"
  shows "connectToAddress_loop pf os fd i errMsg w =
         connectToAddress_loop pf os fd (i + n) errMsg (emits (idle_events fd n) w)"
  using assms
proof (induction n)
  case 0
  then show ?case by (simp add: idle_events_def)
next
  case (Suc n)
  have a: "connectToAddress_loop pf os fd i errMsg w =
         connectToAddress_loop pf os fd (i + n) errMsg (emits (idle_events fd n) w)"
    using Suc by simp
  have b: "i + n < maxRetries" "\<not> isCancellationRequested os (i + n)" "\<not> writable os (i + n)"
    using Suc.prems by simp_all
  show ?case
    unfolding a loop_idle_step [OF b] emits_emits idle_events_Suc by simp
qed

lemma loop_timeout:
  assumes "maxRetries \<le> i"
  shows "connectToAddress_loop pf os fd i errMsg w =
         (False, -1, ''connect timed out after 60 seconds'', closeSocket os fd w)"
  using assms by (subst connectToAddress_loop.simps) simp

lemma loop_cancel:
  assumes "i < maxRetries" "isCancellationRequested os i"
  shows "connectToAddress_loop pf os fd i errMsg w =
         (False, -1, ''Cancelled'', closeSocket os fd (emits [Poll_cancel True] w))"
  using assms by (subst connectToAddress_loop.simps) (simp add: emit_as_emits)

lemma loop_settle:
  assumes "i < maxRetries" "\<not> isCancellationRequested os i" "writable os i"
  shows "connectToAddress_loop pf os fd i errMsg w =
         (let w3 = emits [Poll_cancel False, Sys_select fd selectTimeOut True,
                          Sys_so_error fd (getsockopt_ret os) (optval_of os)] w
          in if getsockopt_ret os = -1 \<or> optval_of os \<noteq> 0
             then (False, -1, strerror pf (optval_of os), closeSocket os fd w3)
             else (True, fd, errMsg, w3))"
  using assms
  by (subst connectToAddress_loop.simps) (simp add: Let_def emit_def emits_def optval_of_def)

lemma quiet_until_unique:
  assumes "quiet_until os k" "isCancellationRequested os k \<or> writable os k"
    and "quiet_until os k'" "isCancellationRequested os k' \<or> writable os k'"
  shows "k = k'"
proof (rule ccontr)
  assume "k \<noteq> k'"
  then consider "k < k'" | "k' < k" by arith
  then show False
    using assms by cases (auto simp: quiet_until_def)
qed

lemma loop_cases:
  obtains (timed_out) "quiet_until os maxRetries"
  | (cancelled) k where "k < maxRetries" "quiet_until os k" "isCancellationRequested os k"
  | (settled) k where "k < maxRetries" "quiet_until os k"
      "\<not> isCancellationRequested os k" "writable os k"
proof (cases "\<exists>k<maxRetries. isCancellationRequested os k \<or> writable os k")
  case False
  then have "quiet_until os maxRetries" by (auto simp: quiet_until_def)
  then show ?thesis by (rule timed_out)
next
  case True
  define P where "P k \<longleftrightarrow> k < maxRetries \<and> (isCancellationRequested os k \<or> writable os k)" for k
  from True have ex: "\<exists>k. P k" by (auto simp: P_def)
  define k where "k = (LEAST k. P k)"
  have Pk: "P k" unfolding k_def using ex by (auto intro: LeastI)
  have least: "\<And>j. j < k \<Longrightarrow> \<not> P j" unfolding k_def by (rule not_less_Least)
  have q: "quiet_until os k"
    unfolding quiet_until_def
  proof (intro ballI)
    fix j assume "j \<in> {0..<k}"
    then have "j < k" by simp
    with least [of j] Pk show "\<not> isCancellationRequested os j \<and> \<not> writable os j"
      by (auto simp: P_def)
  qed
  show ?thesis
  proof (cases "isCancellationRequested os k")
    case True
    with Pk q show ?thesis by (auto simp: P_def intro: cancelled)
  next
    case False
    with Pk q show ?thesis by (auto simp: P_def intro: settled)
  qed
qed

lemma loop_from_start:
  assumes "quiet_until os k" "k \<le> maxRetries"
  shows "connectToAddress_loop pf os fd 0 errMsg w =
         connectToAddress_loop pf os fd k errMsg (emits (idle_events fd k) w)"
  using loop_idle [of 0 k os pf fd errMsg w] assms by (simp add: quiet_until_def)

lemma loop_timed_out:
  assumes "quiet_until os maxRetries"
  shows "connectToAddress_loop pf os fd 0 errMsg w =
         (False, -1, ''connect timed out after 60 seconds'',
          closeSocket os fd (emits (idle_events fd maxRetries) w))"
  by (simp add: loop_from_start [OF assms] loop_timeout)

lemma loop_cancelled:
  assumes "k < maxRetries" "quiet_until os k" "isCancellationRequested os k"
  shows "connectToAddress_loop pf os fd 0 errMsg w =
         (False, -1, ''Cancelled'',
          closeSocket os fd (emits (idle_events fd k @ [Poll_cancel True]) w))"
  using assms by (simp add: loop_from_start loop_cancel emits_emits)

lemma loop_settled:
  assumes "k < maxRetries" "quiet_until os k" "\<not> isCancellationRequested os k" "writable os k"
  shows "connectToAddress_loop pf os fd 0 errMsg w =
         (let w3 = emits (idle_events fd k @
                      [Poll_cancel False, Sys_select fd selectTimeOut True,
                       Sys_so_error fd (getsockopt_ret os) (optval_of os)]) w
          in if getsockopt_ret os = -1 \<or> optval_of os \<noteq> 0
             then (False, -1, strerror pf (optval_of os), closeSocket os fd w3)
             else (True, fd, errMsg, w3))"
  using assms by (simp add: loop_from_start loop_settle emits_emits)

subsection \<open>One attempt\<close>

lemma attempt_no_socket:
  assumes "socket_ret os < 0"
  shows "connectToAddress pf os a errMsg w =
         (False, -1, ''Cannot create a socket'', emits [Sys_socket a (socket_ret os)] w)"
  using assms by (simp add: connectToAddress_def emit_as_emits)

lemma attempt_refused:
  assumes "0 \<le> socket_ret os" "\<not> connect_initiated pf os"
  shows "connectToAddress pf os a errMsg w =
         (let w4 = closeSocket os (socket_ret os)
                     (emits (setup_events pf os a) (w\<lparr>errno := connect_errno os\<rparr>))
          in (False, -1, strerror pf (errno w4), w4))"
  using assms
  by (simp add: connectToAddress_def connect_initiated_def configure_def Let_def
      emit_def emits_def setup_events_def)

lemma attempt_started:
  assumes "0 \<le> socket_ret os" "connect_initiated pf os"
  shows "connectToAddress pf os a errMsg w =
         connectToAddress_loop pf os (socket_ret os) 0 errMsg
           (emits (setup_events pf os a) (w\<lparr>errno := errno_after_connect os w\<rparr>))"
  using assms
  by (auto simp add: connectToAddress_def connect_initiated_def configure_def Let_def
      emit_def emits_def setup_events_def errno_after_connect_def)

lemma trace_emits [simp]: "trace (emits evs w) = trace w @ evs"
  by (simp add: emits_def)

lemma trace_closeSocket [simp]: "trace (closeSocket os fd w) = trace w @ [Sys_close fd]"
  by (simp add: closeSocket_def emit_def)

lemma errno_emits [simp]: "errno (emits evs w) = errno w"
  by (simp add: emits_def)

lemma errno_closeSocket [simp]:
  "errno (closeSocket os fd w) = (case close_errno os of None \<Rightarrow> errno w | Some e \<Rightarrow> e)"
  by (simp add: closeSocket_def emit_def)

lemma runs_total: "\<exists>c. runs pf os c"
proof (cases "socket_ret os < 0")
  case True
  then have "runs pf os No_socket" by (simp add: runs_def)
  then show ?thesis ..
next
  case sock: False
  show ?thesis
  proof (cases "connect_initiated pf os")
    case False
    with sock have "runs pf os Refused" by (simp add: runs_def)
    then show ?thesis ..
  next
    case init: True
    show ?thesis
    proof (cases rule: loop_cases [of os])
      case timed_out
      with sock init have "runs pf os Timed_out" by (simp add: runs_def)
      then show ?thesis ..
    next
      case (cancelled k)
      with sock init have "runs pf os (Cancelled k)" by (simp add: runs_def)
      then show ?thesis ..
    next
      case (settled k)
      show ?thesis
      proof (cases "getsockopt_ret os = -1 \<or> optval_of os \<noteq> 0")
        case True
        with settled sock init have "runs pf os (Broken k)" by (simp add: runs_def)
        then show ?thesis ..
      next
        case False
        with settled sock init have "runs pf os (Connected k)" by (simp add: runs_def)
        then show ?thesis ..
      qed
    qed
  qed
qed

lemma runs_unique:
  assumes "runs pf os c" "runs pf os c'"
  shows "c = c'"
proof -
  have q: "\<And>k. k < maxRetries \<Longrightarrow> quiet_until os maxRetries \<Longrightarrow>
      isCancellationRequested os k \<or> writable os k \<Longrightarrow> False"
    by (auto simp: quiet_until_def)
  have u: "\<And>k k'. quiet_until os k \<Longrightarrow> isCancellationRequested os k \<or> writable os k \<Longrightarrow>
      quiet_until os k' \<Longrightarrow> isCancellationRequested os k' \<or> writable os k' \<Longrightarrow> k = k'"
    by (rule quiet_until_unique)
  show ?thesis
    using assms
    by (cases c; cases c') (auto simp: runs_def dest: q u)
qed

lemma attempt_course:
  assumes "runs pf os c"
  shows "\<exists>w'. connectToAddress pf os a errMsg w =
           ((case c of Connected k \<Rightarrow> True | _ \<Rightarrow> False),
            (case c of Connected k \<Rightarrow> socket_ret os | _ \<Rightarrow> -1),
            course_message pf os errMsg c, w') \<and>
          trace w' = trace w @ course_events pf os a c"
proof (cases c)
  case No_socket
  with assms show ?thesis
    by (simp add: runs_def attempt_no_socket course_events_def course_message_def)
next
  case Refused
  with assms show ?thesis
    by (simp add: runs_def attempt_refused course_events_def course_message_def Let_def
        split: option.splits)
next
  case Timed_out
  with assms show ?thesis
    by (simp add: runs_def attempt_started loop_timed_out course_events_def course_message_def
        Let_def)
next
  case (Cancelled k)
  with assms show ?thesis
    by (simp add: runs_def attempt_started loop_cancelled [of k] course_events_def
        course_message_def Let_def)
next
  case (Broken k)
  with assms show ?thesis
    by (auto simp add: runs_def attempt_started loop_settled [of k] course_events_def
        course_message_def Let_def)
next
  case (Connected k)
  with assms show ?thesis
    by (simp add: runs_def attempt_started loop_settled [of k] course_events_def
        course_message_def Let_def)
qed

lemma runs_reachable:
  assumes "runs pf os c"
  shows "reachable pf os \<longleftrightarrow> (\<exists>k. c = Connected k)"
proof
  assume "\<exists>k. c = Connected k"
  with assms show "reachable pf os"
    by (auto simp: runs_def reachable_def)
next
  assume r: "reachable pf os"
  then obtain k' where k': "k' < maxRetries" "quiet_until os k'"
    "\<not> isCancellationRequested os k'" "writable os k'"
    by (auto simp: reachable_def)
  show "\<exists>k. c = Connected k"
  proof (cases c)
    case No_socket
    with assms r show ?thesis by (simp add: runs_def reachable_def)
  next
    case Refused
    with assms r show ?thesis by (simp add: runs_def reachable_def)
  next
    case Timed_out
    with assms k' show ?thesis by (auto simp: runs_def quiet_until_def)
  next
    case (Cancelled k)
    with assms have "quiet_until os k" "isCancellationRequested os k"
      by (simp_all add: runs_def)
    with k' have "k = k'" by (auto intro: quiet_until_unique)
    with \<open>isCancellationRequested os k\<close> k' show ?thesis by simp
  next
    case (Broken k)
    with assms r show ?thesis by (auto simp: runs_def reachable_def)
  next
    case (Connected k)
    then show ?thesis by simp
  qed
qed

lemma attempt_events_course:
  assumes "runs pf os c"
  shows "attempt_events pf (a, os) = course_events pf os a c"
  using attempt_course [OF assms, of a "[]" fresh_world]
  by (auto simp: attempt_events_def fresh_world_def)


lemma attempt_run:
  assumes "connectToAddress pf os a errMsg w = (ok, sockfd, msg, w')"
  shows "ok = reachable pf os"
    and "sockfd = (if reachable pf os then socket_ret os else -1)"
    and "msg = (if reachable pf os then errMsg else attempt_message pf (a, os))"
    and "trace w' = trace w @ attempt_events pf (a, os)"
proof -
  obtain c where c: "runs pf os c" using runs_total by blast
  from attempt_course [OF c, of a errMsg w] assms
  have 1: "ok = (case c of Connected k \<Rightarrow> True | _ \<Rightarrow> False)"
    "sockfd = (case c of Connected k \<Rightarrow> socket_ret os | _ \<Rightarrow> -1)"
    "msg = course_message pf os errMsg c"
    "trace w' = trace w @ course_events pf os a c"
    by auto
  from attempt_course [OF c, of a "[]" fresh_world]
  have 2: "attempt_message pf (a, os) = course_message pf os [] c"
    "attempt_events pf (a, os) = course_events pf os a c"
    by (auto simp: attempt_message_def attempt_events_def fresh_world_def)
  have 3: "course_message pf os errMsg c = course_message pf os [] c" if "\<not> reachable pf os"
    using that runs_reachable [OF c] by (cases c) (simp_all add: course_message_def)
  have 4: "course_message pf os errMsg c = errMsg" if "reachable pf os"
    using that runs_reachable [OF c] by (auto simp: course_message_def)
  show "ok = reachable pf os"
    using 1(1) runs_reachable [OF c] by (cases c) simp_all
  show "sockfd = (if reachable pf os then socket_ret os else -1)"
    using 1(2) runs_reachable [OF c] by (cases c) simp_all
  show "msg = (if reachable pf os then errMsg else attempt_message pf (a, os))"
    using 1(3) 2(1) 3 4 by simp
  show "trace w' = trace w @ attempt_events pf (a, os)"
    using 1(4) 2(2) by simp
qed

subsection \<open>The calls of an attempt\<close>

lemma waits_polled_course: "waits_polled (course_events pf os a c)"
  by (cases c) (simp_all add: course_events_def setup_events_def Let_def waits_polled_idle)

lemma select_in_course:
  assumes "e \<in> set (course_events pf os a c)" "is_select e"
  shows "\<exists>r. e = Sys_select (socket_ret os) selectTimeOut r"
proof -
  have i: ?thesis if "e \<in> set (idle_events (socket_ret os) n)" for n
    using that set_idle_events [of "socket_ret os" n] assms(2) by auto
  show ?thesis
    using assms i
    by (cases c) (auto simp: course_events_def setup_events_def Let_def split: if_splits)
qed

lemma poll_true_course:
  assumes "Poll_cancel True \<in> set (course_events pf os a c)"
  shows "\<exists>k. c = Cancelled k"
proof -
  have i: "\<And>n. Poll_cancel True \<notin> set (idle_events (socket_ret os) n)"
    using set_idle_events [of "socket_ret os"] by auto
  show ?thesis
    using assms i
    by (cases c) (auto simp: course_events_def setup_events_def Let_def split: if_splits)
qed

lemma runs_fcntl_ret: "runs pf (os\<lparr>fcntl_ret := r\<rparr>) c = runs pf os c"
  by (cases c) (simp_all add: runs_def connect_initiated_def quiet_until_def optval_of_def)

lemma course_events_fcntl_ret:
  "course_events pf (os\<lparr>fcntl_ret := r\<rparr>) a c = map (with_fcntl_ret r) (course_events pf os a c)"
  by (cases c)
    (simp_all add: course_events_def setup_events_def Let_def optval_of_def
      map_with_fcntl_ret_idle)

lemma course_message_fcntl_ret:
  "course_message pf (os\<lparr>fcntl_ret := r\<rparr>) errMsg c = course_message pf os errMsg c"
  by (cases c) (simp_all add: course_message_def optval_of_def split: option.splits)

lemma course_events_setup:
  assumes "runs pf os c" "0 \<le> socket_ret os"
  shows "\<exists>post. course_events pf os a c = setup_events pf os a @ post \<and>
           (\<forall>e\<in>set post. \<not> is_option_call e \<and> \<not> is_socket_call e)"
proof -
  have i: "\<forall>e\<in>set (idle_events (socket_ret os) n). \<not> is_option_call e \<and> \<not> is_socket_call e" for n
    using set_idle_events [of "socket_ret os" n] by auto
  show ?thesis
  proof (cases c)
    case No_socket
    with assms show ?thesis by (simp add: runs_def)
  next
    case Refused
    then show ?thesis by (simp add: course_events_def Let_def)
  next
    case Timed_out
    then show ?thesis using i by (simp add: course_events_def Let_def)
  next
    case (Cancelled k)
    then show ?thesis using i by (simp add: course_events_def Let_def)
  next
    case (Broken k)
    then show ?thesis using i by (simp add: course_events_def Let_def)
  next
    case (Connected k)
    then show ?thesis using i by (simp add: course_events_def Let_def)
  qed
qed

lemma quiet_until_first:
  assumes "quiet_until os k" "0 < k"
  shows "\<not> isCancellationRequested os 0" "\<not> writable os 0"
  using assms by (auto simp: quiet_until_def)

lemma idle_events_first:
  assumes "0 < n"
  shows "idle_events fd n @ evs =
         Poll_cancel False # Sys_select fd selectTimeOut False # idle_events fd (n - 1) @ evs"
proof -
  from assms obtain m where "n = Suc m" by (cases n) simp_all
  then show ?thesis by (simp add: idle_events_Suc_front)
qed

lemma course_events_loop_entry:
  assumes "runs pf os c" and "0 \<le> socket_ret os" and "connect_initiated pf os"
  shows "\<exists>post. course_events pf os a c =
           setup_events pf os a @
           Poll_cancel (isCancellationRequested os 0) #
           (if isCancellationRequested os 0 then [Sys_close (socket_ret os)]
            else Sys_select (socket_ret os) selectTimeOut (writable os 0) # post)"
proof (cases c)
  case No_socket
  with assms show ?thesis by (simp add: runs_def)
next
  case Refused
  with assms show ?thesis by (simp add: runs_def)
next
  case Timed_out
  with assms(1) have q: "quiet_until os maxRetries" by (simp add: runs_def)
  have m: "0 < maxRetries" by (simp add: maxRetries_eq)
  from quiet_until_first [OF q m] Timed_out show ?thesis
    by (simp add: course_events_def Let_def idle_events_first [OF m])
next
  case (Cancelled k)
  with assms(1) have q: "quiet_until os k" "isCancellationRequested os k"
    by (simp_all add: runs_def)
  show ?thesis
  proof (cases "k = 0")
    case True
    with q Cancelled show ?thesis by (simp add: course_events_def Let_def)
  next
    case False
    then have k: "0 < k" by simp
    from quiet_until_first [OF q(1) k] Cancelled show ?thesis
      by (simp add: course_events_def Let_def idle_events_first [OF k])
  qed
next
  case (Broken k)
  with assms(1) have q: "quiet_until os k" "\<not> isCancellationRequested os k" "writable os k"
    by (simp_all add: runs_def)
  show ?thesis
  proof (cases "k = 0")
    case True
    with q Broken show ?thesis by (simp add: course_events_def Let_def)
  next
    case False
    then have k: "0 < k" by simp
    from quiet_until_first [OF q(1) k] Broken show ?thesis
      by (simp add: course_events_def Let_def idle_events_first [OF k])
  qed
next
  case (Connected k)
  with assms(1) have q: "quiet_until os k" "\<not> isCancellationRequested os k" "writable os k"
    by (simp_all add: runs_def)
  show ?thesis
  proof (cases "k = 0")
    case True
    with q Connected show ?thesis by (simp add: course_events_def Let_def)
  next
    case False
    then have k: "0 < k" by simp
    from quiet_until_first [OF q(1) k] Connected show ?thesis
      by (simp add: course_events_def Let_def idle_events_first [OF k])
  qed
qed

lemma course_events_refused:
  assumes "runs pf os c" and "0 \<le> socket_ret os" and "\<not> connect_initiated pf os"
  shows "course_events pf os a c = setup_events pf os a @ [Sys_close (socket_ret os)]"
  using assms by (cases c) (simp_all add: runs_def course_events_def Let_def)

lemma attempt_socket_calls: "socket_calls (attempt_events pf (a, os)) = [a]"
proof -
  obtain c where c: "runs pf os c" using runs_total by blast
  show ?thesis
    unfolding attempt_events_course [OF c]
    by (cases c)
      (simp_all add: course_events_def setup_events_def Let_def socket_calls_append
        socket_calls_idle)
qed

lemma attempt_opens:
  "length (filter is_open (attempt_events pf (a, os))) = (if 0 \<le> socket_ret os then 1 else 0)"
proof -
  obtain c where c: "runs pf os c" using runs_total by blast
  have i: "filter is_open (idle_events (socket_ret os) n) = []" for n
    by (rule filter_idle_events) simp_all
  show ?thesis
    unfolding attempt_events_course [OF c]
    using c by (cases c) (simp_all add: runs_def course_events_def setup_events_def Let_def i)
qed

lemma attempt_closes:
  "length (filter is_close (attempt_events pf (a, os))) =
     (if 0 \<le> socket_ret os \<and> \<not> reachable pf os then 1 else 0)"
proof -
  obtain c where c: "runs pf os c" using runs_total by blast
  have i: "filter is_close (idle_events (socket_ret os) n) = []" for n
    by (rule filter_idle_events) simp_all
  show ?thesis
    unfolding attempt_events_course [OF c]
    using c runs_reachable [OF c]
    by (cases c) (simp_all add: runs_def course_events_def setup_events_def Let_def i)
qed

lemma attempt_live:
  "live (attempt_events pf (a, os)) = (if reachable pf os then [socket_ret os] else [])"
proof -
  obtain c where c: "runs pf os c" using runs_total by blast
  show ?thesis
    unfolding attempt_events_course [OF c] live_def
    using c runs_reachable [OF c]
    by (cases c)
      (simp_all add: runs_def course_events_def setup_events_def Let_def foldl_track_idle_only)
qed

lemma attempt_peak: "peak [] (attempt_events pf (a, os)) \<le> 1"
proof -
  obtain c where c: "runs pf os c" using runs_total by blast
  show ?thesis
    unfolding attempt_events_course [OF c]
    using c
    by (cases c) (simp_all add: runs_def course_events_def setup_events_def Let_def peak_idle)
qed


subsection \<open>Attempts in a row\<close>

lemma failed_attempts_live:
  assumes "\<forall>c\<in>set cs. \<not> reachable pf (snd c)"
  shows "live (concat (map (attempt_events pf) cs)) = []"
  using assms
proof (induction cs)
  case Nil
  show ?case by (simp add: live_def)
next
  case (Cons c cs)
  obtain a os where c: "c = (a, os)" by (cases c)
  with Cons.prems have "live (attempt_events pf c) = []" by (simp add: attempt_live)
  with Cons show ?case by (simp add: live_append)
qed

lemma failed_attempts_peak:
  assumes "\<forall>c\<in>set cs. \<not> reachable pf (snd c)"
  shows "peak [] (concat (map (attempt_events pf) cs)) \<le> 1"
  using assms
proof (induction cs)
  case Nil
  show ?case by simp
next
  case (Cons c cs)
  obtain a os where c: "c = (a, os)" by (cases c)
  with Cons.prems have l: "foldl track [] (attempt_events pf c) = []"
    using attempt_live [of pf a os] by (simp add: live_def)
  have "peak [] (attempt_events pf c) \<le> 1" unfolding c by (rule attempt_peak)
  with Cons l show ?case by (simp add: peak_append)
qed

lemma socket_calls_attempts:
  "socket_calls (concat (map (attempt_events pf) cs)) = map fst cs"
proof (induction cs)
  case Nil
  show ?case by simp
next
  case (Cons c cs)
  obtain a os where c: "c = (a, os)" by (cases c)
  with Cons show ?case by (simp add: socket_calls_append attempt_socket_calls)
qed

lemma count_opens_attempts:
  "length (filter is_open (concat (map (attempt_events pf) cs))) =
   length (filter (\<lambda>c. 0 \<le> socket_ret (snd c)) cs)"
proof (induction cs)
  case Nil
  show ?case by simp
next
  case (Cons c cs)
  obtain a os where c: "c = (a, os)" by (cases c)
  with Cons show ?case by (simp add: attempt_opens)
qed

lemma count_closes_failed_attempts:
  assumes "\<forall>c\<in>set cs. \<not> reachable pf (snd c)"
  shows "length (filter is_close (concat (map (attempt_events pf) cs))) =
         length (filter (\<lambda>c. 0 \<le> socket_ret (snd c)) cs)"
  using assms
proof (induction cs)
  case Nil
  show ?case by simp
next
  case (Cons c cs)
  obtain a os where c: "c = (a, os)" by (cases c)
  with Cons show ?case by (simp add: attempt_closes)
qed

lemma connect_loop_all_fail:
  assumes "\<forall>c\<in>set cs. \<not> reachable pf (snd c)" "cs \<noteq> []"
  shows "\<exists>w'. connect_loop pf cs success sockfd errMsg w =
           (False, -1, attempt_message pf (last cs), w') \<and>
         trace w' = trace w @ concat (map (attempt_events pf) cs)"
  using assms
proof (induction cs arbitrary: success sockfd errMsg w)
  case Nil
  then show ?case by simp
next
  case (Cons c cs)
  obtain a os where c: "c = (a, os)" by (cases c)
  obtain ok fd1 msg1 w1 where r: "connectToAddress pf os a errMsg w = (ok, fd1, msg1, w1)"
    by (cases "connectToAddress pf os a errMsg w")
  have nr: "\<not> reachable pf os" using Cons.prems c by simp
  note f = attempt_run [OF r]
  have ok: "\<not> ok" "fd1 = -1" "msg1 = attempt_message pf (a, os)"
    "trace w1 = trace w @ attempt_events pf (a, os)"
    using f nr by simp_all
  show ?case
  proof (cases "cs = []")
    case True
    with c r ok show ?thesis by simp
  next
    case False
    from Cons.IH [OF _ False, of False "-1" msg1 w1] Cons.prems
    obtain w' where "connect_loop pf cs False (-1) msg1 w1 =
        (False, -1, attempt_message pf (last cs), w')"
      "trace w' = trace w1 @ concat (map (attempt_events pf) cs)"
      by auto
    with c r ok False show ?thesis by simp
  qed
qed

lemma connect_loop_first_reachable:
  assumes "\<forall>c\<in>set pre. \<not> reachable pf (snd c)" "reachable pf os"
  shows "\<exists>msg w'. connect_loop pf (pre @ (a, os) # post) success sockfd errMsg w =
           (True, socket_ret os, msg, w') \<and>
         msg = (if pre = [] then errMsg else attempt_message pf (last pre)) \<and>
         trace w' = trace w @ concat (map (attempt_events pf) (pre @ [(a, os)]))"
  using assms
proof (induction pre arbitrary: success sockfd errMsg w)
  case Nil
  obtain ok fd1 msg1 w1 where r: "connectToAddress pf os a errMsg w = (ok, fd1, msg1, w1)"
    by (cases "connectToAddress pf os a errMsg w")
  from attempt_run [OF r] Nil r show ?case by simp
next
  case (Cons c pre)
  obtain a1 os1 where c: "c = (a1, os1)" by (cases c)
  obtain ok fd1 msg1 w1 where r: "connectToAddress pf os1 a1 errMsg w = (ok, fd1, msg1, w1)"
    by (cases "connectToAddress pf os1 a1 errMsg w")
  have nr: "\<not> reachable pf os1" using Cons.prems c by simp
  note f = attempt_run [OF r]
  have ok: "\<not> ok" "fd1 = -1" "msg1 = attempt_message pf (a1, os1)"
    "trace w1 = trace w @ attempt_events pf (a1, os1)"
    using f nr by simp_all
  from Cons.IH [of False "-1" msg1 w1] Cons.prems
  obtain msg w' where "connect_loop pf (pre @ (a, os) # post) False (-1) msg1 w1 =
      (True, socket_ret os, msg, w')"
    "msg = (if pre = [] then msg1 else attempt_message pf (last pre))"
    "trace w' = trace w1 @ concat (map (attempt_events pf) (pre @ [(a, os)]))"
    by auto
  with c r ok show ?case by auto
qed

lemma first_reachable_split:
  assumes "\<exists>c\<in>set cs. reachable pf (snd c)"
  obtains pre a os post where "cs = pre @ (a, os) # post"
    "\<forall>c\<in>set pre. \<not> reachable pf (snd c)" "reachable pf os"
proof -
  from assms have "\<exists>x\<in>set cs. (\<lambda>c. reachable pf (snd c)) x" by simp
  from split_list_first_prop [OF this]
  obtain pre c post where "cs = pre @ c # post" "reachable pf (snd c)"
    "\<forall>y\<in>set pre. \<not> reachable pf (snd y)" by blast
  then show ?thesis using that [of pre "fst c" "snd c" post] by simp
qed

lemma connect_all_fail:
  assumes "res \<noteq> []" and "\<forall>c\<in>set res. \<not> reachable pf (snd c)"
  shows "\<exists>w'. connect pf res errMsg w = (-1, attempt_message pf (last res), w') \<and>
           trace w' = trace w @ concat (map (attempt_events pf) res)"
  using connect_loop_all_fail [OF assms(2,1), of False "-1" errMsg w] assms(1)
  by (auto simp: connect_def)

lemma connect_first_reachable:
  assumes "\<forall>c\<in>set pre. \<not> reachable pf (snd c)" and "reachable pf os"
  shows "\<exists>msg w'. connect pf (pre @ (a, os) # post) errMsg w = (socket_ret os, msg, w') \<and>
           trace w' = trace w @ concat (map (attempt_events pf) (pre @ [(a, os)]))"
  using connect_loop_first_reachable [OF assms, of a post False "-1" errMsg w]
  by (auto simp: connect_def)

lemma connect_events:
  obtains (none) "res = []" "connect pf res errMsg w = (-1, errMsg, w)"
  | (all_fail) w' where "res \<noteq> []" "\<forall>c\<in>set res. \<not> reachable pf (snd c)"
      "connect pf res errMsg w = (-1, attempt_message pf (last res), w')"
      "trace w' = trace w @ concat (map (attempt_events pf) res)"
  | (connected) pre a os post msg w' where "res = pre @ (a, os) # post"
      "\<forall>c\<in>set pre. \<not> reachable pf (snd c)" "reachable pf os"
      "connect pf res errMsg w = (socket_ret os, msg, w')"
      "trace w' = trace w @ concat (map (attempt_events pf) pre) @ attempt_events pf (a, os)"
proof (cases "res = []")
  case True
  then show ?thesis using none by (simp add: connect_def)
next
  case ne: False
  show ?thesis
  proof (cases "\<exists>c\<in>set res. reachable pf (snd c)")
    case False
    with connect_all_fail [OF ne, of pf errMsg w] ne show ?thesis
      using all_fail by blast
  next
    case True
    then obtain pre a os post where s: "res = pre @ (a, os) # post"
      "\<forall>c\<in>set pre. \<not> reachable pf (snd c)" "reachable pf os"
      by (rule first_reachable_split)
    from connect_first_reachable [OF s(2,3), of a post errMsg w] s show ?thesis
      using connected by auto
  qed
qed



subsection \<open>The concrete candidates\<close>

lemma quiet_until_os_accepts: "quiet_until os_accepts 2"
  by (simp add: quiet_until_def os_accepts_def os_silent_def)

lemma os_accepts_reachable: "reachable posix os_accepts"
proof -
  have "2 \<in> {0..<maxRetries} \<and> quiet_until os_accepts 2 \<and>
      \<not> isCancellationRequested os_accepts 2 \<and> writable os_accepts 2"
    by (simp add: maxRetries_eq quiet_until_def os_accepts_def os_silent_def)
  then have "\<exists>k\<in>{0..<maxRetries}. quiet_until os_accepts k \<and>
      \<not> isCancellationRequested os_accepts k \<and> writable os_accepts k"
    by blast
  then show ?thesis
    by (simp add: reachable_def connect_initiated_def optval_of_def os_accepts_def
        os_silent_def posix_def)
qed

lemma os_immediate_reachable: "reachable posix os_immediate"
proof -
  have "0 \<in> {0..<maxRetries} \<and> quiet_until os_immediate 0 \<and>
      \<not> isCancellationRequested os_immediate 0 \<and> writable os_immediate 0"
    by (simp add: maxRetries_eq quiet_until_def os_immediate_def os_silent_def)
  then have "\<exists>k\<in>{0..<maxRetries}. quiet_until os_immediate k \<and>
      \<not> isCancellationRequested os_immediate k \<and> writable os_immediate k"
    by blast
  then show ?thesis
    by (simp add: reachable_def connect_initiated_def optval_of_def os_immediate_def
        os_silent_def)
qed

lemma os_refuses_unreachable: "\<not> reachable posix os_refuses"
  by (simp add: reachable_def optval_of_def os_refuses_def os_silent_def)

lemma os_no_socket_unreachable: "\<not> reachable posix os_no_socket"
  by (simp add: reachable_def os_no_socket_def os_silent_def)

lemma attempt_message_os_refuses: "attempt_message posix (a, os_refuses) = ''Connection refused''"
proof -
  have h: "0 \<le> socket_ret os_refuses" "connect_initiated posix os_refuses"
    "0 < maxRetries" "quiet_until os_refuses 0"
    "\<not> isCancellationRequested os_refuses 0" "writable os_refuses 0"
    by (simp_all add: os_refuses_def os_silent_def connect_initiated_def quiet_until_def
        maxRetries_eq posix_def)
  show ?thesis
    unfolding attempt_message_def fst_conv snd_conv attempt_started [OF h(1,2)]
      loop_settled [OF h(3-6)]
    by (simp add: os_refuses_def os_silent_def posix_def optval_of_def strerror_table_def)
qed

section \<open>The claims\<close>




text \<open>
  C2 fails on the code: here \<^verbatim>\<open>fcntl\<close> answers \<open>-1\<close>, so non-blocking mode was not
  set, and the attempt still issues the connect call, enters the polling loop and
  succeeds.
\<close>

theorem nonblock_failure_still_connects:
  "fcntl_ret os_blocking = -1 \<and>
   connectToAddress posix os_blocking addr_B [] fresh_world =
     (True, 3, [],
      \<lparr>errno = 0,
       trace = [Sys_socket addr_B 3, Sys_nodelay 3 0, Sys_nonblock 3 (-1),
                Sys_connect 3 addr_B 0,
                Poll_cancel False, Sys_select 3 50000 True, Sys_so_error 3 0 0]\<rparr>)"
proof -
  let ?os = os_blocking
  have h: "0 \<le> socket_ret ?os" "connect_initiated posix ?os"
    "0 < maxRetries" "quiet_until ?os 0" "\<not> isCancellationRequested ?os 0" "writable ?os 0"
    by (simp_all add: os_blocking_def os_immediate_def os_silent_def connect_initiated_def quiet_until_def
        maxRetries_eq)
  show ?thesis
    unfolding attempt_started [OF h(1,2)] loop_settled [OF h(3-6)]
    by (simp add: os_blocking_def os_immediate_def os_silent_def posix_def fresh_world_def optval_of_def
        setup_events_def emits_def errno_after_connect_def selectTimeOut_def)
qed

text \<open>
  C2, as the code has it. Non-blocking mode is requested on every created socket, before
  the connect call, and what \<^verbatim>\<open>fcntl\<close> answers is dropped. With any other answer \<open>r\<close>
  the attempt makes the same calls (only the recorded answer differs) and returns the
  same flag, descriptor and message; the flag is true exactly when the candidate is
  reachable. The connect call follows the configuration. When the connect call is
  initiated the attempt enters the polling loop: the next call is the first poll of the
  callback, followed by the close when it answers yes and by the first readiness wait
  when it answers no. When the connect call is refused the next call is the close, and
  nothing follows.
\<close>

theorem nonblock_result_ignored:
  "\<exists>ok sockfd msg w1 w2 evs.
     connectToAddress pf os a errMsg w = (ok, sockfd, msg, w1) \<and>
     connectToAddress pf (os\<lparr>fcntl_ret := r\<rparr>) a errMsg w = (ok, sockfd, msg, w2) \<and>
     trace w1 = trace w @ evs \<and>
     trace w2 = trace w @ map (with_fcntl_ret r) evs \<and>
     ok = reachable pf os \<and>
     sockfd = (if reachable pf os then socket_ret os else -1) \<and>
     (0 \<le> socket_ret os \<longrightarrow>
        (\<exists>post. evs = [Sys_socket a (socket_ret os),
                       Sys_nodelay (socket_ret os) (nodelay_ret os),
                       Sys_nonblock (socket_ret os) (fcntl_ret os)] @
                      (if has_SO_NOSIGPIPE pf
                       then [Sys_nosigpipe (socket_ret os) (nosigpipe_ret os)] else []) @
                      [Sys_connect (socket_ret os) a (connect_ret os)] @ post)) \<and>
     (0 \<le> socket_ret os \<and> connect_initiated pf os \<longrightarrow>
        (\<exists>post. evs = setup_events pf os a @
                      Poll_cancel (isCancellationRequested os 0) #
                      (if isCancellationRequested os 0 then [Sys_close (socket_ret os)]
                       else Sys_select (socket_ret os) selectTimeOut (writable os 0) # post))) \<and>
     (0 \<le> socket_ret os \<and> \<not> connect_initiated pf os \<longrightarrow>
        evs = setup_events pf os a @ [Sys_close (socket_ret os)])"
proof -
  obtain c where c: "runs pf os c" using runs_total by blast
  then have c': "runs pf (os\<lparr>fcntl_ret := r\<rparr>) c" by (simp add: runs_fcntl_ret)
  from attempt_course [OF c, of a errMsg w]
  obtain w1 where 1: "connectToAddress pf os a errMsg w =
      ((case c of Connected k \<Rightarrow> True | _ \<Rightarrow> False),
       (case c of Connected k \<Rightarrow> socket_ret os | _ \<Rightarrow> -1),
       course_message pf os errMsg c, w1)"
    "trace w1 = trace w @ course_events pf os a c"
    by blast
  from attempt_course [OF c', of a errMsg w]
  obtain w2 where 2: "connectToAddress pf (os\<lparr>fcntl_ret := r\<rparr>) a errMsg w =
      ((case c of Connected k \<Rightarrow> True | _ \<Rightarrow> False),
       (case c of Connected k \<Rightarrow> socket_ret os | _ \<Rightarrow> -1),
       course_message pf os errMsg c, w2)"
    "trace w2 = trace w @ map (with_fcntl_ret r) (course_events pf os a c)"
    by (cases c) (auto simp: course_message_fcntl_ret course_events_fcntl_ret)
  have 3: "\<exists>post. course_events pf os a c =
      [Sys_socket a (socket_ret os), Sys_nodelay (socket_ret os) (nodelay_ret os),
       Sys_nonblock (socket_ret os) (fcntl_ret os)] @
      (if has_SO_NOSIGPIPE pf then [Sys_nosigpipe (socket_ret os) (nosigpipe_ret os)] else []) @
      [Sys_connect (socket_ret os) a (connect_ret os)] @ post" if "0 \<le> socket_ret os"
    using course_events_setup [OF c that, of a] by (auto simp: setup_events_def)
  have 4: "(case c of Connected k \<Rightarrow> True | _ \<Rightarrow> False) = reachable pf os"
    using runs_reachable [OF c] by (cases c) simp_all
  have 5: "(case c of Connected k \<Rightarrow> socket_ret os | _ \<Rightarrow> -1) =
      (if reachable pf os then socket_ret os else -1)"
    using runs_reachable [OF c] by (cases c) simp_all
  have 6: "\<exists>post. course_events pf os a c = setup_events pf os a @
      Poll_cancel (isCancellationRequested os 0) #
      (if isCancellationRequested os 0 then [Sys_close (socket_ret os)]
       else Sys_select (socket_ret os) selectTimeOut (writable os 0) # post)"
    if "0 \<le> socket_ret os \<and> connect_initiated pf os"
    using course_events_loop_entry [OF c, of a] that by blast
  have 7: "course_events pf os a c = setup_events pf os a @ [Sys_close (socket_ret os)]"
    if "0 \<le> socket_ret os \<and> \<not> connect_initiated pf os"
    using course_events_refused [OF c, of a] that by blast
  from 1 2 3 4 5 6 7 show ?thesis by blast
qed

theorem nonblock_result_ignored_witness:
  "0 \<le> socket_ret os_immediate \<and> connect_initiated posix os_immediate \<and>
   fst (connectToAddress posix os_blocking addr_B [] fresh_world) \<and>
   fst (snd (connectToAddress posix os_blocking addr_B [] fresh_world)) = 3 \<and>
   take 6 (trace (snd (snd (snd (connectToAddress posix os_blocking addr_B [] fresh_world))))) =
     [Sys_socket addr_B 3, Sys_nodelay 3 0, Sys_nonblock 3 (-1), Sys_connect 3 addr_B 0,
      Poll_cancel False, Sys_select 3 50000 True]"
proof -
  have h: "0 \<le> socket_ret os_immediate \<and> connect_initiated posix os_immediate"
    by (simp add: os_immediate_def os_silent_def connect_initiated_def)
  note t = nonblock_result_ignored [of posix os_immediate addr_B "[]" fresh_world "-1"]
  from t obtain ok sockfd msg w1 w2 evs where
    r: "connectToAddress posix (os_immediate\<lparr>fcntl_ret := -1\<rparr>) addr_B [] fresh_world =
          (ok, sockfd, msg, w2)"
    and t2: "trace w2 = trace fresh_world @ map (with_fcntl_ret (-1)) evs"
    and ok: "ok = reachable posix os_immediate"
    and fd: "sockfd = (if reachable posix os_immediate then socket_ret os_immediate else -1)"
    and l: "0 \<le> socket_ret os_immediate \<and> connect_initiated posix os_immediate \<longrightarrow>
        (\<exists>post. evs = setup_events posix os_immediate addr_B @
           Poll_cancel (isCancellationRequested os_immediate 0) #
           (if isCancellationRequested os_immediate 0 then [Sys_close (socket_ret os_immediate)]
            else Sys_select (socket_ret os_immediate) selectTimeOut (writable os_immediate 0) #
                 post))"
    by blast
  from l h obtain post where
    e: "evs = setup_events posix os_immediate addr_B @
           Poll_cancel (isCancellationRequested os_immediate 0) #
           (if isCancellationRequested os_immediate 0 then [Sys_close (socket_ret os_immediate)]
            else Sys_select (socket_ret os_immediate) selectTimeOut (writable os_immediate 0) #
                 post)"
    by blast
  have b: "os_blocking = os_immediate\<lparr>fcntl_ret := -1\<rparr>" by (simp add: os_blocking_def)
  have "fst (connectToAddress posix os_blocking addr_B [] fresh_world)"
    "fst (snd (connectToAddress posix os_blocking addr_B [] fresh_world)) = 3"
    "take 6 (trace (snd (snd (snd (connectToAddress posix os_blocking addr_B [] fresh_world))))) =
     [Sys_socket addr_B 3, Sys_nodelay 3 0, Sys_nonblock 3 (-1), Sys_connect 3 addr_B 0,
      Poll_cancel False, Sys_select 3 50000 True]"
    unfolding b r
    using ok fd t2 e os_immediate_reachable
    by (simp_all add: setup_events_def os_immediate_def os_silent_def posix_def fresh_world_def
        selectTimeOut_def)
  with h show ?thesis by blast
qed

text \<open>
  C3 fails on the code: a successful attempt on a platform with \<^verbatim>\<open>SO_NOSIGPIPE\<close>.
  All three options are set before the connect call and none is set after the success.
\<close>

theorem every_option_set_before_connect:
  "connectToAddress bsd os_immediate addr_B [] fresh_world =
     (True, 3, [],
      \<lparr>errno = 0,
       trace = [Sys_socket addr_B 3, Sys_nodelay 3 0, Sys_nonblock 3 0, Sys_nosigpipe 3 0,
                Sys_connect 3 addr_B 0,
                Poll_cancel False, Sys_select 3 50000 True, Sys_so_error 3 0 0]\<rparr>)"
proof -
  have h: "0 \<le> socket_ret os_immediate" "connect_initiated bsd os_immediate"
    "0 < maxRetries" "quiet_until os_immediate 0"
    "\<not> isCancellationRequested os_immediate 0" "writable os_immediate 0"
    by (simp_all add: os_immediate_def os_silent_def connect_initiated_def quiet_until_def
        maxRetries_eq)
  show ?thesis
    unfolding attempt_started [OF h(1,2)] loop_settled [OF h(3-6)]
    by (simp add: os_immediate_def os_silent_def bsd_def fresh_world_def optval_of_def
        setup_events_def emits_def errno_after_connect_def selectTimeOut_def)
qed

text \<open>
  C3, as the code has it. An attempt whose socket was created calls \<^verbatim>\<open>configure\<close> in
  full between the creation of the socket and the connect call: delayed-ACK coalescing
  off, non-blocking mode on and, where \<^verbatim>\<open>SO_NOSIGPIPE\<close> is defined, the pipe signal
  off, in this order. No option is set after the connect call, whether the attempt
  succeeds or not.
\<close>

theorem configure_runs_before_connect:
  assumes "0 \<le> socket_ret os"
  shows "\<exists>ok sockfd msg w' post.
     connectToAddress pf os a errMsg w = (ok, sockfd, msg, w') \<and>
     trace w' = trace w @
       [Sys_socket a (socket_ret os),
        Sys_nodelay (socket_ret os) (nodelay_ret os),
        Sys_nonblock (socket_ret os) (fcntl_ret os)] @
       (if has_SO_NOSIGPIPE pf then [Sys_nosigpipe (socket_ret os) (nosigpipe_ret os)] else []) @
       [Sys_connect (socket_ret os) a (connect_ret os)] @ post \<and>
     list_all (\<lambda>e. \<not> is_option_call e) post"
proof -
  obtain c where c: "runs pf os c" using runs_total by blast
  from attempt_course [OF c, of a errMsg w]
  obtain ok sockfd msg w' where 1: "connectToAddress pf os a errMsg w = (ok, sockfd, msg, w')"
    "trace w' = trace w @ course_events pf os a c"
    by blast
  from course_events_setup [OF c assms, of a]
  obtain post where "course_events pf os a c = setup_events pf os a @ post"
    "list_all (\<lambda>e. \<not> is_option_call e) post"
    by (auto simp: list_all_iff)
  with 1 show ?thesis by (auto simp: setup_events_def)
qed

theorem configure_runs_before_connect_witness:
  "0 \<le> socket_ret os_immediate \<and>
   take 5 (trace (snd (snd (snd (connectToAddress bsd os_immediate addr_B [] fresh_world))))) =
     [Sys_socket addr_B 3, Sys_nodelay 3 0, Sys_nonblock 3 0, Sys_nosigpipe 3 0,
      Sys_connect 3 addr_B 0]"
proof -
  have h: "0 \<le> socket_ret os_immediate" by (simp add: os_immediate_def os_silent_def)
  from configure_runs_before_connect [OF h, of bsd addr_B "[]" fresh_world]
  show ?thesis
    using h by (auto simp: os_immediate_def os_silent_def bsd_def fresh_world_def)
qed

text \<open>
  C4. A list with a reachable candidate splits at its first reachable candidate
  \<open>(a, os)\<close>: the candidates before it are unreachable. \<^verbatim>\<open>connect\<close> returns the
  descriptor of \<open>(a, os)\<close>, which is not negative. The calls it made are the attempts on
  the candidates up to and including \<open>(a, os)\<close>, in the order of the list: \<^verbatim>\<open>socket\<close>
  was called once for each of them, in that order, and for none of the candidates after
  \<open>(a, os)\<close>. One more socket was opened than closed: the one returned.
\<close>

theorem first_reachable_wins:
  assumes "list_ex (\<lambda>c. reachable pf (snd c)) res"
  shows "\<exists>pre a os post msg w' evs.
           res = pre @ (a, os) # post \<and>
           list_all (\<lambda>c. \<not> reachable pf (snd c)) pre \<and> reachable pf os \<and>
           connect pf res errMsg w = (socket_ret os, msg, w') \<and>
           0 \<le> socket_ret os \<and>
           trace w' = trace w @ evs \<and>
           evs = concat (map (attempt_events pf) (pre @ [(a, os)])) \<and>
           socket_calls evs = map fst pre @ [a] \<and>
           length (filter is_open evs) = length (filter is_close evs) + 1"
proof -
  from assms have "\<exists>c\<in>set res. reachable pf (snd c)" by (simp add: list_ex_iff)
  then obtain pre a os post where s: "res = pre @ (a, os) # post"
    "\<forall>c\<in>set pre. \<not> reachable pf (snd c)" "reachable pf os"
    by (rule first_reachable_split)
  from connect_first_reachable [OF s(2,3), of a post errMsg w]
  obtain msg w' where r: "connect pf (pre @ (a, os) # post) errMsg w = (socket_ret os, msg, w')"
    "trace w' = trace w @ concat (map (attempt_events pf) (pre @ [(a, os)]))"
    by blast
  let ?evs = "concat (map (attempt_events pf) (pre @ [(a, os)]))"
  have 2: "0 \<le> socket_ret os" using s(3) by (simp add: reachable_def)
  have 3: "socket_calls ?evs = map fst pre @ [a]"
    by (simp only: socket_calls_attempts) simp
  have 4: "length (filter is_open ?evs) = length (filter is_close ?evs) + 1"
  proof -
    have o: "length (filter is_open ?evs) =
        length (filter (\<lambda>c. 0 \<le> socket_ret (snd c)) pre) + 1"
      using 2 by (simp only: count_opens_attempts) simp
    have "length (filter is_close ?evs) =
        length (filter is_close (concat (map (attempt_events pf) pre))) +
        length (filter is_close (attempt_events pf (a, os)))"
      by simp
    also have "\<dots> = length (filter (\<lambda>c. 0 \<le> socket_ret (snd c)) pre)"
      using s(2,3) by (simp add: count_closes_failed_attempts attempt_closes)
    finally show ?thesis using o by simp
  qed
  have 5: "list_all (\<lambda>c. \<not> reachable pf (snd c)) pre" using s(2) by (simp add: list_all_iff)
  from s(1,3) r 2 3 4 5 show ?thesis by blast
qed

theorem first_reachable_wins_witness:
  "list_ex (\<lambda>c. reachable posix (snd c))
     [(addr_A, os_refuses), (addr_B, os_accepts), (addr_A, os_accepts)] \<and>
   fst (connect posix [(addr_A, os_refuses), (addr_B, os_accepts), (addr_A, os_accepts)]
          [] fresh_world) = 3 \<and>
   socket_calls (trace (snd (snd
     (connect posix [(addr_A, os_refuses), (addr_B, os_accepts), (addr_A, os_accepts)]
        [] fresh_world)))) = [addr_A, addr_B]"
proof -
  let ?res = "[(addr_A, os_refuses), (addr_B, os_accepts), (addr_A, os_accepts)]"
  have h: "list_ex (\<lambda>c. reachable posix (snd c)) ?res"
    using os_accepts_reachable by simp
  from first_reachable_wins [OF h, of "[]" fresh_world]
  obtain pre a os post msg w' evs where
    s: "?res = pre @ (a, os) # post"
    and u: "list_all (\<lambda>c. \<not> reachable posix (snd c)) pre"
    and v: "reachable posix os"
    and r: "connect posix ?res [] fresh_world = (socket_ret os, msg, w')"
    and t: "trace w' = trace fresh_world @ evs"
    and c: "socket_calls evs = map fst pre @ [a]"
    by blast
  have p: "pre = [(addr_A, os_refuses)] \<and> (a, os) = (addr_B, os_accepts)"
  proof (cases pre)
    case Nil
    with s v os_refuses_unreachable show ?thesis by simp
  next
    case (Cons x xs)
    note outer = Cons
    show ?thesis
    proof (cases xs)
      case Nil
      with outer s show ?thesis by simp
    next
      case (Cons y ys)
      with outer s u os_accepts_reachable show ?thesis by auto
    qed
  qed
  with r t c have "fst (connect posix ?res [] fresh_world) = 3"
    "socket_calls (trace (snd (snd (connect posix ?res [] fresh_world)))) = [addr_A, addr_B]"
    by (simp_all add: fresh_world_def os_accepts_def os_silent_def)
  with h show ?thesis by blast
qed

text \<open>
  C5 fails on the code: two candidates, neither reachable. Creating the socket fails for
  the first (an address family the host does not support), the second is refused. One
  socket is opened and closed, not two.
\<close>

theorem unreachable_socket_never_opened:
  "\<not> reachable posix os_no_socket \<and> \<not> reachable posix os_refuses \<and>
   connect posix [(addr_A, os_no_socket), (addr_B, os_refuses)] [] fresh_world =
     (-1, ''Connection refused'',
      \<lparr>errno = 115,
       trace = [Sys_socket addr_A (-1),
                Sys_socket addr_B 3, Sys_nodelay 3 0, Sys_nonblock 3 0,
                Sys_connect 3 addr_B (-1),
                Poll_cancel False, Sys_select 3 50000 True, Sys_so_error 3 0 111,
                Sys_close 3]\<rparr>)"
proof -
  have a: "socket_ret os_no_socket < 0" by (simp add: os_no_socket_def os_silent_def)
  have h: "0 \<le> socket_ret os_refuses" "connect_initiated posix os_refuses"
    "0 < maxRetries" "quiet_until os_refuses 0"
    "\<not> isCancellationRequested os_refuses 0" "writable os_refuses 0"
    by (simp_all add: os_refuses_def os_silent_def connect_initiated_def quiet_until_def
        maxRetries_eq posix_def)
  have "connect posix [(addr_A, os_no_socket), (addr_B, os_refuses)] [] fresh_world =
     (-1, ''Connection refused'',
      \<lparr>errno = 115,
       trace = [Sys_socket addr_A (-1),
                Sys_socket addr_B 3, Sys_nodelay 3 0, Sys_nonblock 3 0,
                Sys_connect 3 addr_B (-1),
                Poll_cancel False, Sys_select 3 50000 True, Sys_so_error 3 0 111,
                Sys_close 3]\<rparr>)"
    unfolding connect_def connect_loop.simps attempt_no_socket [OF a]
      attempt_started [OF h(1,2)] loop_settled [OF h(3-6)]
    by (simp add: os_refuses_def os_no_socket_def os_silent_def posix_def fresh_world_def
        optval_of_def setup_events_def emits_def errno_after_connect_def selectTimeOut_def
        closeSocket_def emit_def strerror_table_def)
  with os_no_socket_unreachable os_refuses_unreachable show ?thesis by blast
qed

text \<open>
  C5, as the code has it. When the list is not empty and no candidate is reachable,
  \<^verbatim>\<open>connect\<close> returns \<open>-1\<close> with the message of the attempt on the last candidate. Every
  candidate was attempted, in order. The number of sockets opened and the number of
  sockets closed both equal the number of candidates whose socket could be created, and
  no socket is left open; when every socket could be created this is the number of
  candidates.
\<close>

theorem all_unreachable_fails:
  assumes "res \<noteq> []" and "\<forall>c\<in>set res. \<not> reachable pf (snd c)"
  shows "\<exists>w' evs.
           connect pf res errMsg w = (-1, attempt_message pf (last res), w') \<and>
           trace w' = trace w @ evs \<and>
           evs = concat (map (attempt_events pf) res) \<and>
           socket_calls evs = map fst res \<and>
           length (filter is_open evs) = length (filter (\<lambda>c. 0 \<le> socket_ret (snd c)) res) \<and>
           length (filter is_close evs) = length (filter (\<lambda>c. 0 \<le> socket_ret (snd c)) res) \<and>
           live evs = [] \<and>
           (list_all (\<lambda>c. 0 \<le> socket_ret (snd c)) res \<longrightarrow>
              length (filter is_close evs) = length res)"
proof -
  from connect_all_fail [OF assms, of errMsg w]
  obtain w' where r: "connect pf res errMsg w = (-1, attempt_message pf (last res), w')"
    "trace w' = trace w @ concat (map (attempt_events pf) res)"
    by blast
  let ?evs = "concat (map (attempt_events pf) res)"
  have 1: "socket_calls ?evs = map fst res" by (rule socket_calls_attempts)
  have 2: "length (filter is_open ?evs) = length (filter (\<lambda>c. 0 \<le> socket_ret (snd c)) res)"
    by (rule count_opens_attempts)
  have 3: "length (filter is_close ?evs) = length (filter (\<lambda>c. 0 \<le> socket_ret (snd c)) res)"
    using assms(2) by (rule count_closes_failed_attempts)
  have 4: "live ?evs = []" using assms(2) by (rule failed_attempts_live)
  have 5: "length (filter is_close ?evs) = length res"
    if "list_all (\<lambda>c. 0 \<le> socket_ret (snd c)) res"
  proof -
    from that have "filter (\<lambda>c. 0 \<le> socket_ret (snd c)) res = res"
      by (simp add: list_all_iff)
    with 3 show ?thesis by simp
  qed
  from r 1 2 3 4 5 show ?thesis by blast
qed

theorem all_unreachable_fails_witness:
  "[(addr_A, os_no_socket), (addr_B, os_refuses)] \<noteq> [] \<and>
   \<not> reachable posix os_no_socket \<and> \<not> reachable posix os_refuses \<and>
   fst (connect posix [(addr_A, os_no_socket), (addr_B, os_refuses)] [] fresh_world) = -1 \<and>
   fst (snd (connect posix [(addr_A, os_no_socket), (addr_B, os_refuses)] [] fresh_world)) =
     ''Connection refused'' \<and>
   length (filter is_close (trace (snd (snd
     (connect posix [(addr_A, os_no_socket), (addr_B, os_refuses)] [] fresh_world))))) = 1"
proof -
  have n: "[(addr_A, os_no_socket), (addr_B, os_refuses)] \<noteq> []" by simp
  have h: "\<forall>c\<in>set [(addr_A, os_no_socket), (addr_B, os_refuses)]. \<not> reachable posix (snd c)"
    using os_no_socket_unreachable os_refuses_unreachable by simp
  let ?res = "[(addr_A, os_no_socket), (addr_B, os_refuses)]"
  from all_unreachable_fails [OF n h, of "[]" fresh_world]
  obtain w' evs where r: "connect posix ?res [] fresh_world =
      (-1, attempt_message posix (last ?res), w')"
    "trace w' = trace fresh_world @ evs"
    "length (filter is_close evs) = length (filter (\<lambda>c. 0 \<le> socket_ret (snd c)) ?res)"
    by blast
  have c: "length (filter (\<lambda>c. 0 \<le> socket_ret (snd c)) ?res) = 1"
    by (simp add: os_refuses_def os_no_socket_def os_silent_def)
  have t: "trace fresh_world = []" by (simp add: fresh_world_def)
  from r c t have "fst (connect posix ?res [] fresh_world) = -1"
    "fst (snd (connect posix ?res [] fresh_world)) = ''Connection refused''"
    "length (filter is_close (trace (snd (snd (connect posix ?res [] fresh_world))))) = 1"
    by (simp_all add: attempt_message_os_refuses)
  with n os_no_socket_unreachable os_refuses_unreachable show ?thesis by blast
qed

text \<open>
  C6. When the readiness wait of iteration \<open>k\<close> reports the socket writable, the attempt
  reads the pending error of the socket. If the read did not fail and the value is zero,
  the attempt succeeds and hands out the descriptor, which stays open. If the read failed
  or the value is not zero, the socket is closed and the attempt fails with the error text
  of that value.
\<close>

theorem writable_reads_pending_error:
  assumes "0 \<le> socket_ret os" and "connect_initiated pf os"
    and "k < maxRetries" and "quiet_until os k"
    and "\<not> isCancellationRequested os k" and "writable os k"
  shows "\<exists>w'. connectToAddress pf os a errMsg w =
           (if getsockopt_ret os \<noteq> -1 \<and> optval_of os = 0
            then (True, socket_ret os, errMsg, w')
            else (False, -1, strerror pf (optval_of os), w')) \<and>
         trace w' = trace w @ setup_events pf os a @ idle_events (socket_ret os) k @
           [Poll_cancel False, Sys_select (socket_ret os) selectTimeOut True,
            Sys_so_error (socket_ret os) (getsockopt_ret os) (optval_of os)] @
           (if getsockopt_ret os \<noteq> -1 \<and> optval_of os = 0 then []
            else [Sys_close (socket_ret os)])"
proof (cases "getsockopt_ret os \<noteq> -1 \<and> optval_of os = 0")
  case True
  with assms have "runs pf os (Connected k)" by (simp add: runs_def)
  from attempt_course [OF this, of a errMsg w] True show ?thesis
    by (simp add: course_events_def course_message_def Let_def)
next
  case False
  with assms have "runs pf os (Broken k)" by (auto simp: runs_def)
  from attempt_course [OF this, of a errMsg w] False show ?thesis
    by (auto simp add: course_events_def course_message_def Let_def)
qed

theorem writable_reads_pending_error_witness:
  "0 \<le> socket_ret os_accepts \<and> connect_initiated posix os_accepts \<and>
   2 < maxRetries \<and> quiet_until os_accepts 2 \<and>
   \<not> isCancellationRequested os_accepts 2 \<and> writable os_accepts 2 \<and>
   (\<exists>w'. connectToAddress posix os_accepts addr_B ''stale'' fresh_world =
      (True, 3, ''stale'', w') \<and>
      trace w' = [Sys_socket addr_B 3, Sys_nodelay 3 0, Sys_nonblock 3 0,
                  Sys_connect 3 addr_B (-1),
                  Poll_cancel False, Sys_select 3 50000 False,
                  Poll_cancel False, Sys_select 3 50000 False,
                  Poll_cancel False, Sys_select 3 50000 True,
                  Sys_so_error 3 0 0])"
proof -
  have h: "0 \<le> socket_ret os_accepts" "connect_initiated posix os_accepts"
    "2 < maxRetries" "quiet_until os_accepts 2"
    "\<not> isCancellationRequested os_accepts 2" "writable os_accepts 2"
    by (simp_all add: os_accepts_def os_silent_def connect_initiated_def posix_def
        quiet_until_def maxRetries_eq)
  have "\<exists>w'. connectToAddress posix os_accepts addr_B ''stale'' fresh_world =
      (True, 3, ''stale'', w') \<and>
      trace w' = [Sys_socket addr_B 3, Sys_nodelay 3 0, Sys_nonblock 3 0,
                  Sys_connect 3 addr_B (-1),
                  Poll_cancel False, Sys_select 3 50000 False,
                  Poll_cancel False, Sys_select 3 50000 False,
                  Poll_cancel False, Sys_select 3 50000 True,
                  Sys_so_error 3 0 0]"
    using writable_reads_pending_error [OF h, of addr_B "''stale''" fresh_world]
    by (simp add: setup_events_def os_accepts_def os_silent_def posix_def fresh_world_def
        optval_of_def idle_events_def selectTimeOut_def numeral_2_eq_2)
  with h show ?thesis by blast
qed

text \<open>
  C7. In every attempt, each readiness wait comes directly after a poll of the
  cancellation callback that answered no, and waits 50 ms (50 * 1000 microseconds) on the
  attempt's own descriptor. When a poll answers yes, the attempt closes the socket and
  fails with the message "Cancelled": the poll that answered yes is followed by the close
  and by nothing else, so no readiness wait follows it within the attempt.
\<close>

theorem cancellation_polled_before_wait:
  "\<exists>ok sockfd msg w' evs.
     connectToAddress pf os a errMsg w = (ok, sockfd, msg, w') \<and>
     trace w' = trace w @ evs \<and>
     waits_polled evs \<and>
     (\<forall>e\<in>set evs. is_select e \<longrightarrow> (\<exists>r. e = Sys_select (socket_ret os) (50 * 1000) r)) \<and>
     (Poll_cancel True \<in> set evs \<longrightarrow>
        \<not> ok \<and> sockfd = -1 \<and> msg = ''Cancelled'' \<and>
        (\<exists>pre. evs = pre @ [Poll_cancel True, Sys_close (socket_ret os)] \<and>
               Poll_cancel True \<notin> set pre)) \<and>
     (\<forall>k. 0 \<le> socket_ret os \<and> connect_initiated pf os \<and> k < maxRetries \<and>
          quiet_until os k \<and> isCancellationRequested os k \<longrightarrow>
          \<not> ok \<and> sockfd = -1 \<and> msg = ''Cancelled'' \<and>
          evs = setup_events pf os a @ idle_events (socket_ret os) k @
                [Poll_cancel True, Sys_close (socket_ret os)])"
proof -
  obtain c where c: "runs pf os c" using runs_total by blast
  from attempt_course [OF c, of a errMsg w]
  obtain w' where r: "connectToAddress pf os a errMsg w =
      ((case c of Connected k \<Rightarrow> True | _ \<Rightarrow> False),
       (case c of Connected k \<Rightarrow> socket_ret os | _ \<Rightarrow> -1),
       course_message pf os errMsg c, w')"
    and t: "trace w' = trace w @ course_events pf os a c"
    by blast
  let ?evs = "course_events pf os a c"
  have cancelled: "\<not> (case c of Connected k \<Rightarrow> True | _ \<Rightarrow> False) \<and>
      (case c of Connected k \<Rightarrow> socket_ret os | _ \<Rightarrow> -1) = -1 \<and>
      course_message pf os errMsg c = ''Cancelled'' \<and>
      ?evs = setup_events pf os a @ idle_events (socket_ret os) k @
            [Poll_cancel True, Sys_close (socket_ret os)]" if "c = Cancelled k" for k
    using that by (simp add: course_message_def course_events_def Let_def)
  have 1: "waits_polled ?evs" by (rule waits_polled_course)
  have 2: "\<forall>e\<in>set ?evs. is_select e \<longrightarrow> (\<exists>r. e = Sys_select (socket_ret os) (50 * 1000) r)"
    using select_in_course [of _ pf os a c] by (auto simp: selectTimeOut_def)
  have 3: "\<not> (case c of Connected k \<Rightarrow> True | _ \<Rightarrow> False) \<and>
      (case c of Connected k \<Rightarrow> socket_ret os | _ \<Rightarrow> -1) = -1 \<and>
      course_message pf os errMsg c = ''Cancelled'' \<and>
      (\<exists>pre. ?evs = pre @ [Poll_cancel True, Sys_close (socket_ret os)] \<and>
             Poll_cancel True \<notin> set pre)" if p: "Poll_cancel True \<in> set ?evs"
  proof -
    from poll_true_course [OF p] obtain k where k: "c = Cancelled k" by blast
    have n: "Poll_cancel True \<notin> set (setup_events pf os a @ idle_events (socket_ret os) k)"
      using set_idle_events [of "socket_ret os" k] by (auto simp: setup_events_def)
    have "?evs = (setup_events pf os a @ idle_events (socket_ret os) k) @
        [Poll_cancel True, Sys_close (socket_ret os)]"
      using cancelled [OF k] by simp
    with n cancelled [OF k] show ?thesis by blast
  qed
  have 4: "\<not> (case c of Connected k \<Rightarrow> True | _ \<Rightarrow> False) \<and>
      (case c of Connected k \<Rightarrow> socket_ret os | _ \<Rightarrow> -1) = -1 \<and>
      course_message pf os errMsg c = ''Cancelled'' \<and>
      ?evs = setup_events pf os a @ idle_events (socket_ret os) k @
            [Poll_cancel True, Sys_close (socket_ret os)]"
    if "0 \<le> socket_ret os \<and> connect_initiated pf os \<and> k < maxRetries \<and>
          quiet_until os k \<and> isCancellationRequested os k" for k
  proof -
    from that have "runs pf os (Cancelled k)" by (simp add: runs_def)
    with c have "c = Cancelled k" by (rule runs_unique)
    then show ?thesis by (rule cancelled)
  qed
  from r t 1 2 3 4 show ?thesis by blast
qed

theorem cancellation_polled_before_wait_witness:
  "fst (snd (snd (connectToAddress posix os_cancelled_late addr_B [] fresh_world))) = ''Cancelled'' \<and>
   trace (snd (snd (snd (connectToAddress posix os_cancelled_late addr_B [] fresh_world)))) =
     [Sys_socket addr_B 3, Sys_nodelay 3 0, Sys_nonblock 3 0, Sys_connect 3 addr_B (-1),
      Poll_cancel False, Sys_select 3 50000 False, Poll_cancel True, Sys_close 3]"
proof -
  have h: "0 \<le> socket_ret os_cancelled_late \<and> connect_initiated posix os_cancelled_late \<and>
      1 < maxRetries \<and> quiet_until os_cancelled_late 1 \<and>
      isCancellationRequested os_cancelled_late 1"
    by (simp add: os_cancelled_late_def os_silent_def connect_initiated_def posix_def
        quiet_until_def maxRetries_eq)
  from cancellation_polled_before_wait [of posix os_cancelled_late addr_B "[]" fresh_world]
  obtain ok sockfd msg w' evs where
    r: "connectToAddress posix os_cancelled_late addr_B [] fresh_world = (ok, sockfd, msg, w')"
    and t: "trace w' = trace fresh_world @ evs"
    and k: "\<forall>k. 0 \<le> socket_ret os_cancelled_late \<and> connect_initiated posix os_cancelled_late \<and>
          k < maxRetries \<and> quiet_until os_cancelled_late k \<and>
          isCancellationRequested os_cancelled_late k \<longrightarrow>
          \<not> ok \<and> sockfd = -1 \<and> msg = ''Cancelled'' \<and>
          evs = setup_events posix os_cancelled_late addr_B @
                idle_events (socket_ret os_cancelled_late) k @
                [Poll_cancel True, Sys_close (socket_ret os_cancelled_late)]"
    by blast
  from k h have "msg = ''Cancelled''"
    "evs = setup_events posix os_cancelled_late addr_B @
           idle_events (socket_ret os_cancelled_late) 1 @
           [Poll_cancel True, Sys_close (socket_ret os_cancelled_late)]"
    by blast+
  with r t show ?thesis
    by (simp add: setup_events_def os_cancelled_late_def os_silent_def posix_def
        fresh_world_def idle_events_def selectTimeOut_def)
qed

text \<open>
  C8. A candidate whose socket is created and whose connect is initiated, that never
  becomes writable and is never cancelled: the loop runs \<open>maxRetries\<close> iterations,
  which is 60 seconds divided by 50 ms, 1200; then the socket is closed and the attempt
  fails with the message "connect timed out after 60 seconds".
\<close>

theorem timeout_after_maxRetries:
  assumes "0 \<le> socket_ret os" and "connect_initiated pf os"
    and "quiet_until os maxRetries"
  shows "maxRetries = 1200 \<and> maxRetries * selectTimeOut = 60 * 1000 * 1000 \<and>
         (\<exists>w' evs. connectToAddress pf os a errMsg w =
              (False, -1, ''connect timed out after 60 seconds'', w') \<and>
            trace w' = trace w @ evs \<and>
            evs = setup_events pf os a @ idle_events (socket_ret os) 1200 @
                  [Sys_close (socket_ret os)] \<and>
            length (filter is_poll evs) = 1200 \<and>
            length (filter is_select evs) = 1200)"
proof -
  have q: "runs pf os Timed_out"
    using assms by (simp add: runs_def)
  from attempt_course [OF q, of a errMsg w]
  obtain w' where w': "connectToAddress pf os a errMsg w =
      (False, -1, ''connect timed out after 60 seconds'', w')"
    "trace w' = trace w @ course_events pf os a Timed_out"
    by (auto simp: course_message_def)
  have ev: "course_events pf os a Timed_out =
      setup_events pf os a @ idle_events (socket_ret os) 1200 @ [Sys_close (socket_ret os)]"
    by (simp add: course_events_def maxRetries_eq Let_def)
  have cp: "length (filter is_poll (course_events pf os a Timed_out)) = 1200"
    unfolding ev by (simp add: setup_events_def count_poll_idle)
  have cs: "length (filter is_select (course_events pf os a Timed_out)) = 1200"
    unfolding ev by (simp add: setup_events_def count_select_idle)
  have m: "maxRetries * selectTimeOut = 60 * 1000 * 1000"
    by (simp add: maxRetries_eq selectTimeOut_def)
  from w' ev cp cs m maxRetries_eq show ?thesis by simp
qed

theorem timeout_after_maxRetries_witness:
  "0 \<le> socket_ret os_silent \<and> connect_initiated posix os_silent \<and>
   quiet_until os_silent maxRetries \<and>
   (\<exists>w'. connectToAddress posix os_silent addr_B [] fresh_world =
      (False, -1, ''connect timed out after 60 seconds'', w') \<and>
      trace w' = [Sys_socket addr_B 3, Sys_nodelay 3 0, Sys_nonblock 3 0, Sys_connect 3 addr_B (-1)]
         @ idle_events 3 1200 @ [Sys_close 3])"
proof -
  have h: "0 \<le> socket_ret os_silent" "connect_initiated posix os_silent"
    "quiet_until os_silent maxRetries"
    by (simp_all add: os_silent_def connect_initiated_def posix_def quiet_until_def)
  have "\<exists>w' evs. connectToAddress posix os_silent addr_B [] fresh_world =
      (False, -1, ''connect timed out after 60 seconds'', w') \<and>
      trace w' = trace fresh_world @ evs \<and>
      evs = setup_events posix os_silent addr_B @ idle_events (socket_ret os_silent) 1200 @
            [Sys_close (socket_ret os_silent)] \<and>
      length (filter is_poll evs) = 1200 \<and> length (filter is_select evs) = 1200"
    using timeout_after_maxRetries [OF h, of addr_B "[]" fresh_world] by blast
  then have "\<exists>w'. connectToAddress posix os_silent addr_B [] fresh_world =
      (False, -1, ''connect timed out after 60 seconds'', w') \<and>
      trace w' = [Sys_socket addr_B 3, Sys_nodelay 3 0, Sys_nonblock 3 0,
                  Sys_connect 3 addr_B (-1)] @ idle_events 3 1200 @ [Sys_close 3]"
    by (auto simp: setup_events_def os_silent_def posix_def fresh_world_def)
  with h show ?thesis by blast
qed

text \<open>
  C9. After every prefix of the calls made by \<^verbatim>\<open>connect\<close>, at most one socket is open.
  At the end no socket is open when \<open>-1\<close> is returned, and the returned socket alone is
  open otherwise. The same holds of a single attempt: a failed attempt, whichever way it
  failed, leaves no socket open.
\<close>

theorem one_live_socket:
  "(\<exists>sockfd msg w' evs.
      connect pf res errMsg w = (sockfd, msg, w') \<and> trace w' = trace w @ evs \<and>
      (\<forall>n\<le>length evs. length (live (take n evs)) \<le> 1) \<and>
      live evs = (if sockfd = -1 then [] else [sockfd])) \<and>
   (\<exists>ok sockfd msg w' evs.
      connectToAddress pf os a errMsg w = (ok, sockfd, msg, w') \<and> trace w' = trace w @ evs \<and>
      (\<forall>n\<le>length evs. length (live (take n evs)) \<le> 1) \<and>
      live evs = (if ok then [sockfd] else []))"
proof
  show "\<exists>sockfd msg w' evs.
      connect pf res errMsg w = (sockfd, msg, w') \<and> trace w' = trace w @ evs \<and>
      (\<forall>n\<le>length evs. length (live (take n evs)) \<le> 1) \<and>
      live evs = (if sockfd = -1 then [] else [sockfd])"
  proof (cases rule: connect_events [of res pf errMsg w])
    case none
    then have "connect pf res errMsg w = (-1, errMsg, w) \<and> trace w = trace w @ [] \<and>
        (\<forall>n\<le>length ([]::event list). length (live (take n [])) \<le> 1) \<and>
        live [] = (if (-1::int) = -1 then [] else [-1])"
      by (simp add: live_def)
    then show ?thesis by blast
  next
    case (all_fail w')
    let ?evs = "concat (map (attempt_events pf) res)"
    have "peak [] ?evs \<le> 1" using all_fail(2) by (rule failed_attempts_peak)
    then have p: "\<forall>n\<le>length ?evs. length (live (take n ?evs)) \<le> 1"
      by (simp add: peak_bound live_def)
    have "live ?evs = []" using all_fail(2) by (rule failed_attempts_live)
    with all_fail p show ?thesis by auto
  next
    case (connected pre a1 os1 post msg w')
    let ?pre = "concat (map (attempt_events pf) pre)"
    let ?evs = "?pre @ attempt_events pf (a1, os1)"
    have l: "live ?pre = []" using connected(2) by (rule failed_attempts_live)
    have "peak [] ?pre \<le> 1" using connected(2) by (rule failed_attempts_peak)
    moreover have "peak [] (attempt_events pf (a1, os1)) \<le> 1" by (rule attempt_peak)
    ultimately have "peak [] ?evs \<le> 1"
      using l by (simp add: peak_append live_def)
    then have p: "\<forall>n\<le>length ?evs. length (live (take n ?evs)) \<le> 1"
      by (simp add: peak_bound live_def)
    have v: "live ?evs = [socket_ret os1]"
      using l connected(3) by (simp add: live_append attempt_live)
    have "socket_ret os1 \<noteq> -1" using connected(3) by (auto simp: reachable_def)
    with connected p v show ?thesis by auto
  qed
next
  obtain ok sockfd msg w' where r: "connectToAddress pf os a errMsg w = (ok, sockfd, msg, w')"
    by (cases "connectToAddress pf os a errMsg w")
  note f = attempt_run [OF r]
  let ?evs = "attempt_events pf (a, os)"
  have "peak [] ?evs \<le> 1" by (rule attempt_peak)
  then have p: "\<forall>n\<le>length ?evs. length (live (take n ?evs)) \<le> 1"
    by (simp add: peak_bound live_def)
  have "live ?evs = (if ok then [sockfd] else [])"
    using f(1,2) by (simp add: attempt_live)
  with r f(4) p show "\<exists>ok sockfd msg w' evs.
      connectToAddress pf os a errMsg w = (ok, sockfd, msg, w') \<and> trace w' = trace w @ evs \<and>
      (\<forall>n\<le>length evs. length (live (take n evs)) \<le> 1) \<and>
      live evs = (if ok then [sockfd] else [])"
    by blast
qed

theorem one_live_socket_witness:
  "live (trace (snd (snd
     (connect posix [(addr_A, os_refuses), (addr_B, os_accepts)] [] fresh_world)))) = [3] \<and>
   length (live (take 10 (trace (snd (snd
     (connect posix [(addr_A, os_refuses), (addr_B, os_accepts)] [] fresh_world)))))) \<le> 1"
proof -
  let ?res = "[(addr_A, os_refuses), (addr_B, os_accepts)]"
  from one_live_socket [of posix ?res "[]" fresh_world]
  obtain sockfd msg w' evs where r: "connect posix ?res [] fresh_world = (sockfd, msg, w')"
    "trace w' = trace fresh_world @ evs"
    "\<forall>n\<le>length evs. length (live (take n evs)) \<le> 1"
    "live evs = (if sockfd = -1 then [] else [sockfd])"
    by blast
  have t: "trace fresh_world = []" by (simp add: fresh_world_def)
  have "length (live (take 10 evs)) \<le> 1"
  proof (cases "10 \<le> length evs")
    case True
    with r(3) show ?thesis by blast
  next
    case False
    then have "take 10 evs = take (length evs) evs" by simp
    with r(3) show ?thesis by (metis order_refl)
  qed
  moreover have "sockfd = 3"
  proof -
    have "\<forall>c\<in>set [(addr_A, os_refuses)]. \<not> reachable posix (snd c)"
      using os_refuses_unreachable by simp
    from connect_first_reachable [OF this os_accepts_reachable, of addr_B "[]" "[]" fresh_world]
    have "fst (connect posix ?res [] fresh_world) = socket_ret os_accepts" by auto
    with r(1) show ?thesis by (simp add: os_accepts_def os_silent_def)
  qed
  ultimately show ?thesis using r t by simp
qed

text \<open>
  C10. An attempt returns true exactly when the candidate is reachable; then its
  descriptor is the created socket, not negative; otherwise its descriptor is \<open>-1\<close>.
  \<^verbatim>\<open>connect\<close> returns \<open>-1\<close> exactly when the chain is empty (resolution failed) or no
  candidate is reachable, and a descriptor that is not negative exactly when some
  candidate is reachable.
\<close>

theorem minus_one_iff_failure:
  "(\<exists>ok sockfd msg w'.
      connectToAddress pf os a errMsg w = (ok, sockfd, msg, w') \<and>
      ok = reachable pf os \<and>
      (if ok then sockfd = socket_ret os \<and> 0 \<le> sockfd else sockfd = -1)) \<and>
   (fst (connect pf res errMsg w) = -1 \<longleftrightarrow>
      res = [] \<or> list_all (\<lambda>c. \<not> reachable pf (snd c)) res) \<and>
   (0 \<le> fst (connect pf res errMsg w) \<longleftrightarrow> list_ex (\<lambda>c. reachable pf (snd c)) res)"
proof (intro conjI)
  obtain ok sockfd msg w' where r: "connectToAddress pf os a errMsg w = (ok, sockfd, msg, w')"
    by (cases "connectToAddress pf os a errMsg w")
  note f = attempt_run [OF r]
  have "if ok then sockfd = socket_ret os \<and> 0 \<le> sockfd else sockfd = -1"
    using f(1,2) by (auto simp: reachable_def)
  with r f(1) show "\<exists>ok sockfd msg w'.
      connectToAddress pf os a errMsg w = (ok, sockfd, msg, w') \<and>
      ok = reachable pf os \<and>
      (if ok then sockfd = socket_ret os \<and> 0 \<le> sockfd else sockfd = -1)"
    by blast
next
  show "fst (connect pf res errMsg w) = -1 \<longleftrightarrow>
      res = [] \<or> list_all (\<lambda>c. \<not> reachable pf (snd c)) res"
  proof (cases rule: connect_events [of res pf errMsg w])
    case none
    then show ?thesis by simp
  next
    case (all_fail w')
    then show ?thesis by (simp add: list_all_iff)
  next
    case (connected pre a1 os1 post msg w')
    then have "0 \<le> socket_ret os1" by (simp add: reachable_def)
    with connected show ?thesis by (auto simp: list_all_iff)
  qed
next
  show "0 \<le> fst (connect pf res errMsg w) \<longleftrightarrow> list_ex (\<lambda>c. reachable pf (snd c)) res"
  proof (cases rule: connect_events [of res pf errMsg w])
    case none
    then show ?thesis by simp
  next
    case (all_fail w')
    then show ?thesis by (simp add: list_ex_iff)
  next
    case (connected pre a1 os1 post msg w')
    then have "0 \<le> socket_ret os1" by (simp add: reachable_def)
    with connected show ?thesis by (auto simp: list_ex_iff)
  qed
qed

theorem minus_one_iff_failure_witness:
  "fst (connect posix [(addr_A, os_no_socket), (addr_B, os_silent)] [] fresh_world) = -1 \<and>
   fst (connect posix [] ''resolution failed'' fresh_world) = -1 \<and>
   0 \<le> fst (connect posix [(addr_A, os_no_socket), (addr_B, os_accepts)] [] fresh_world)"
proof -
  have s: "\<not> reachable posix os_silent"
    by (simp add: reachable_def os_silent_def)
  have 1: "list_all (\<lambda>c. \<not> reachable posix (snd c)) [(addr_A, os_no_socket), (addr_B, os_silent)]"
    using os_no_socket_unreachable s by simp
  have 2: "list_ex (\<lambda>c. reachable posix (snd c)) [(addr_A, os_no_socket), (addr_B, os_accepts)]"
    using os_accepts_reachable by simp
  from minus_one_iff_failure
    [of posix os_silent addr_B "[]" fresh_world "[(addr_A, os_no_socket), (addr_B, os_silent)]"] 1
  have a: "fst (connect posix [(addr_A, os_no_socket), (addr_B, os_silent)] [] fresh_world) = -1"
    by blast
  from minus_one_iff_failure
    [of posix os_silent addr_B "''resolution failed''" fresh_world "[]"]
  have b: "fst (connect posix [] ''resolution failed'' fresh_world) = -1"
    by blast
  from minus_one_iff_failure
    [of posix os_silent addr_B "[]" fresh_world "[(addr_A, os_no_socket), (addr_B, os_accepts)]"] 2
  have c: "0 \<le> fst (connect posix [(addr_A, os_no_socket), (addr_B, os_accepts)] [] fresh_world)"
    by blast
  from a b c show ?thesis by blast
qed

end
